theory Spec2Isabelle
  imports Complex_Main "HOL-Library.List_Lexorder" "HOL-Library.Char_ord"
begin

section \<open>Strings of the JavaScript runtime\<close>

text \<open>
  The strings the classifier, the routes and the export work on are modelled as
  \<^typ>\<open>string\<close>, one \<^typ>\<open>char\<close> per byte. Every literal the program compares a
  string with (\<open>agent\<close>, \<open>coder\<close>, \<open>tester\<close>, \<open>manager\<close>, the route paths) is ASCII.
  \<open>String.prototype.toLowerCase\<close> is modelled on the letters \<open>A\<close> to \<open>Z\<close>; the only
  code points outside ASCII whose lower case is an ASCII letter are U+212A (to \<open>k\<close>) and
  U+0130 (to \<open>i\<close> and a combining dot), and neither letter occurs in a tag.
\<close>

definition toLowerChar :: "char \<Rightarrow> char" where
  "toLowerChar c =
     (let n = (of_char c :: nat) in if 65 \<le> n \<and> n \<le> 90 then char_of (n + 32) else c)"

definition toLowerCase :: "string \<Rightarrow> string" where
  "toLowerCase s = map toLowerChar s"

text \<open>\<open>s.indexOf(c)\<close>: the first position of \<open>c\<close>, \<open>None\<close> for the \<open>-1\<close> of JavaScript.\<close>

fun indexOf :: "string \<Rightarrow> char \<Rightarrow> nat option" where
  "indexOf [] c = None"
| "indexOf (x # xs) c =
     (if x = c then Some 0 else (case indexOf xs c of None \<Rightarrow> None | Some i \<Rightarrow> Some (Suc i)))"

text \<open>\<open>s.split(d)\<close> on a one-character separator: always at least one piece.\<close>

fun split_on :: "char \<Rightarrow> string \<Rightarrow> string list" where
  "split_on d [] = [[]]"
| "split_on d (c # cs) =
     (if c = d then [] # split_on d cs
      else (case split_on d cs of [] \<Rightarrow> [[c]] | w # ws \<Rightarrow> (c # w) # ws))"

section \<open>URLSearchParams\<close>

text \<open>
  \<open>new URLSearchParams(init)\<close> on a string, after the URL standard: one leading \<open>?\<close> is
  dropped, the rest is split at \<open>&\<close>, empty pieces are skipped, each piece is split at its
  first \<open>=\<close> into name and value (the value is empty when there is no \<open>=\<close>), every \<open>+\<close>
  becomes a space and \<open>%XX\<close> escapes are decoded. The standard then decodes the bytes as
  UTF-8; this model keeps the bytes, which decides the same comparisons with ASCII text.
\<close>

definition is_hex :: "char \<Rightarrow> bool" where
  "is_hex c =
     (let n = (of_char c :: nat) in
        (48 \<le> n \<and> n \<le> 57) \<or> (65 \<le> n \<and> n \<le> 70) \<or> (97 \<le> n \<and> n \<le> 102))"

definition hex_val :: "char \<Rightarrow> nat" where
  "hex_val c =
     (let n = (of_char c :: nat) in
        if n \<le> 57 then n - 48 else if n \<le> 70 then n - 55 else n - 87)"

fun percent_decode :: "string \<Rightarrow> string" where
  "percent_decode (c # h1 # h2 # rest) =
     (if c = CHR ''%'' \<and> is_hex h1 \<and> is_hex h2
      then char_of (16 * hex_val h1 + hex_val h2) # percent_decode rest
      else c # percent_decode (h1 # h2 # rest))"
| "percent_decode cs = cs"

definition plus_to_space :: "string \<Rightarrow> string" where
  "plus_to_space s = map (\<lambda>c. if c = CHR ''+'' then CHR '' '' else c) s"

definition split_pair :: "string \<Rightarrow> string \<times> string" where
  "split_pair piece =
     (case indexOf piece CHR ''='' of
        None \<Rightarrow> (piece, [])
      | Some i \<Rightarrow> (take i piece, drop (Suc i) piece))"

definition parse_pair :: "string \<Rightarrow> string \<times> string" where
  "parse_pair piece =
     (let (n, v) = split_pair piece
      in (percent_decode (plus_to_space n), percent_decode (plus_to_space v)))"

definition URLSearchParams :: "string \<Rightarrow> (string \<times> string) list" where
  "URLSearchParams init =
     (let q = (case init of c # cs \<Rightarrow> (if c = CHR ''?'' then cs else init) | [] \<Rightarrow> init)
      in map parse_pair (filter (\<lambda>p. p \<noteq> []) (split_on CHR ''&'' q)))"

text \<open>\<open>params.get(name)\<close>: the value of the first pair with that name, \<open>None\<close> for \<open>null\<close>.\<close>

fun params_get :: "(string \<times> string) list \<Rightarrow> string \<Rightarrow> string option" where
  "params_get [] name = None"
| "params_get ((n, v) # ps) name = (if n = name then Some v else params_get ps name)"

section \<open>Request classifier (proxyHandler, lines 168 to 177)\<close>

text \<open>
  \<open>urlStr\<close> is \<open>req.originalUrl || req.url\<close>. Neither \<open>indexOf\<close>, \<open>slice\<close>,
  \<open>URLSearchParams\<close> nor \<open>toLowerCase\<close> throws on a string, so the \<open>catch\<close> branch,
  which would leave the tag at \<open>manager\<close>, has no input here.
\<close>

definition classify_agent :: "string \<Rightarrow> string" where
  "classify_agent urlStr =
     (case indexOf urlStr CHR ''?'' of
        None \<Rightarrow> ''manager''
      | Some qIndex \<Rightarrow>
          (let params = URLSearchParams (drop qIndex urlStr);
               a = toLowerCase (case params_get params ''agent'' of None \<Rightarrow> [] | Some v \<Rightarrow> v)
           in if a = ''coder'' \<or> a = ''tester'' \<or> a = ''manager''
              then (if a = [] then ''manager'' else a)
              else ''manager''))"

definition agent_tags :: "string set" where
  "agent_tags = {''manager'', ''coder'', ''tester''}"


section \<open>Buffers and UTF-8\<close>

text \<open>
  A \<open>Buffer\<close> is a list of bytes, and a JavaScript string is represented by its UTF-8
  encoding, so that \<open>Buffer.byteLength(s, 'utf8')\<close> is the length of the list and
  \<open>upstreamReq.write(s)\<close> puts the list on the wire. \<open>buf.toString('utf8')\<close> decodes
  as the WHATWG UTF-8 decoder does: a well-formed sequence is kept, and every maximal
  ill-formed part is replaced by U+FFFD, whose encoding is \<open>EF BF BD\<close>.
\<close>

definition in_range :: "char \<Rightarrow> nat \<Rightarrow> nat \<Rightarrow> bool" where
  "in_range c lo hi = (lo \<le> (of_char c :: nat) \<and> (of_char c :: nat) \<le> hi)"

definition REPLACEMENT :: string where
  "REPLACEMENT = [CHR 0xEF, CHR 0xBF, CHR 0xBD]"

fun toString_utf8 :: "string \<Rightarrow> string" where
  "toString_utf8 [] = []"
| "toString_utf8 (b # bs) =
     (if in_range b 0x00 0x7F then b # toString_utf8 bs
      else if in_range b 0xC2 0xDF then
        (case bs of
           [] \<Rightarrow> REPLACEMENT
         | b1 # r1 \<Rightarrow>
             if in_range b1 0x80 0xBF then b # b1 # toString_utf8 r1
             else REPLACEMENT @ toString_utf8 bs)
      else if in_range b 0xE0 0xEF then
        (case bs of
           [] \<Rightarrow> REPLACEMENT
         | b1 # r1 \<Rightarrow>
             if \<not> in_range b1 (if b = CHR 0xE0 then 0xA0 else 0x80)
                              (if b = CHR 0xED then 0x9F else 0xBF)
             then REPLACEMENT @ toString_utf8 bs
             else (case r1 of
                     [] \<Rightarrow> REPLACEMENT
                   | b2 # r2 \<Rightarrow>
                       if in_range b2 0x80 0xBF then b # b1 # b2 # toString_utf8 r2
                       else REPLACEMENT @ toString_utf8 r1))
      else if in_range b 0xF0 0xF4 then
        (case bs of
           [] \<Rightarrow> REPLACEMENT
         | b1 # r1 \<Rightarrow>
             if \<not> in_range b1 (if b = CHR 0xF0 then 0x90 else 0x80)
                              (if b = CHR 0xF4 then 0x8F else 0xBF)
             then REPLACEMENT @ toString_utf8 bs
             else (case r1 of
                     [] \<Rightarrow> REPLACEMENT
                   | b2 # r2 \<Rightarrow>
                       if \<not> in_range b2 0x80 0xBF then REPLACEMENT @ toString_utf8 r1
                       else (case r2 of
                               [] \<Rightarrow> REPLACEMENT
                             | b3 # r3 \<Rightarrow>
                                 if in_range b3 0x80 0xBF
                                 then b # b1 # b2 # b3 # toString_utf8 r3
                                 else REPLACEMENT @ toString_utf8 r2)))
      else REPLACEMENT @ toString_utf8 bs)"

text \<open>Well-formed UTF-8 (Unicode, table 3-7), for stating where decoding loses nothing.\<close>

fun utf8_well_formed :: "string \<Rightarrow> bool" where
  "utf8_well_formed [] = True"
| "utf8_well_formed (b # bs) =
     (if in_range b 0x00 0x7F then utf8_well_formed bs
      else if in_range b 0xC2 0xDF then
        (case bs of
           b1 # r1 \<Rightarrow> in_range b1 0x80 0xBF \<and> utf8_well_formed r1
         | _ \<Rightarrow> False)
      else if in_range b 0xE0 0xEF then
        (case bs of
           b1 # b2 # r2 \<Rightarrow>
             in_range b1 (if b = CHR 0xE0 then 0xA0 else 0x80)
                         (if b = CHR 0xED then 0x9F else 0xBF)
             \<and> in_range b2 0x80 0xBF \<and> utf8_well_formed r2
         | _ \<Rightarrow> False)
      else if in_range b 0xF0 0xF4 then
        (case bs of
           b1 # b2 # b3 # r3 \<Rightarrow>
             in_range b1 (if b = CHR 0xF0 then 0x90 else 0x80)
                         (if b = CHR 0xF4 then 0x8F else 0xBF)
             \<and> in_range b2 0x80 0xBF \<and> in_range b3 0x80 0xBF \<and> utf8_well_formed r3
         | _ \<Rightarrow> False)
      else False)"

section \<open>Decimal rendering of integers\<close>

text \<open>Template literals render an integral number below \<open>10^21\<close> in plain decimal.\<close>

definition digit_char :: "nat \<Rightarrow> char" where
  "digit_char d = ''0123456789'' ! (d mod 10)"

fun show_nat :: "nat \<Rightarrow> string" where
  "show_nat n = (if n < 10 then [digit_char n] else show_nat (n div 10) @ [digit_char (n mod 10)])"

declare show_nat.simps [simp del]

definition show_int :: "int \<Rightarrow> string" where
  "show_int i = (if i < 0 then CHR ''-'' # show_nat (nat (- i)) else show_nat (nat i))"

section \<open>Telemetry store (lines 36 to 91)\<close>

text \<open>
  One row of table \<open>stats\<close>. All columns but \<open>agent\<close> are \<open>INTEGER NOT NULL\<close>.
\<close>

record stat_row =
  row_id :: int
  ts :: int
  agent :: string
  in_bytes :: int
  est_tokens :: int
  out_bytes :: int
  upstream_status :: int
  duration_ms :: int

text \<open>
  The table is the list of its rows in insertion order. \<open>stats_db\<close> is \<open>None\<close> when
  persistence is disabled: \<open>better-sqlite3\<close> is not installed or the initialisation
  threw, so that the prepared statements are \<open>undefined\<close>.
\<close>

type_synonym stats_db = "stat_row list option"

text \<open>\<open>INTEGER PRIMARY KEY AUTOINCREMENT\<close>: one more than the largest id handed out.\<close>

definition next_id :: "stat_row list \<Rightarrow> int" where
  "next_id rows = fold (\<lambda>r m. max (row_id r) m) rows 0 + 1"

definition insertStat :: "stat_row list \<Rightarrow> stat_row \<Rightarrow> stat_row list" where
  "insertStat rows r = rows @ [r\<lparr>row_id := next_id rows\<rparr>]"


section \<open>JSON values, errors and configuration\<close>

text \<open>
  JSON values handed to \<open>res.json\<close> and \<open>JSON.stringify\<close>. A body part \<open>JsonText v\<close>
  stands for the text \<open>JSON.stringify(v)\<close>.
\<close>

datatype json =
    JNull
  | JInt int
  | JRat rat
  | JStr string
  | JArr "json list"
  | JObj "(string \<times> json) list"

datatype payload = Raw string | JsonText json

record js_error =
  err_name :: string
  err_message :: string

text \<open>
  \<open>String(err && err.message ? err.message : err)\<close>: the message when it is not empty,
  else \<open>Error.prototype.toString\<close>, which for an empty message is the name.
\<close>

definition error_detail :: "js_error \<Rightarrow> string" where
  "error_detail e = (if err_message e \<noteq> [] then err_message e else err_name e)"

record config =
  OPENROUTER_API_KEY :: string
  UPSTREAM_TIMEOUT_MS :: nat
  WARN_TOKENS_MANAGER :: nat
  WARN_TOKENS_CODER :: nat
  WARN_TOKENS_TESTER :: nat

section \<open>Requests\<close>

text \<open>
  A JavaScript number as far as the reporting handlers need it: \<open>NaN\<close>, the two
  infinities, or a finite value. Finite values are rationals and arithmetic on them is
  exact; doubles agree with that on the integers below \<open>2^53\<close>, which covers
  \<open>Date.now()\<close> and windows of whole minutes.
\<close>

datatype jsnum = NaN | Num rat | PosInfinity | NegInfinity

text \<open>
  \<open>req.query\<close> as the query parser of Express delivers it. \<open>query_periodMinutes\<close> is
  \<open>None\<close> when \<open>req.query.periodMinutes\<close> is falsy (absent or empty) and else holds
  \<open>Number(req.query.periodMinutes)\<close>; the conversion of the text is JavaScript's and is
  not modelled. \<open>query_agent\<close> is \<open>None\<close> when the parameter is absent and else holds
  \<open>String(req.query.agent)\<close>.
\<close>

record query =
  query_periodMinutes :: "jsnum option"
  query_agent :: "string option"

record request =
  req_method :: string
  originalUrl :: string
  req_headers :: "(string \<times> string) list"
  rawBody :: "string option"
  req_id :: string
  req_query :: query

text \<open>
  The \<open>verify\<close> hook of \<open>express.json\<close> (lines 96 to 98), called with the bytes read
  from the client. A request whose body the parser does not read keeps \<open>rawBody\<close>
  undefined, \<open>None\<close> here.
\<close>

definition verify :: "string \<Rightarrow> string" where
  "verify buf = (if buf \<noteq> [] then toString_utf8 buf else [])"

section \<open>Forwarding engine (proxyHandler, lines 159 to 237)\<close>

text \<open>\<open>req.headers[name] || dflt\<close>\<close>

definition header_or :: "(string \<times> string) list \<Rightarrow> string \<Rightarrow> string \<Rightarrow> string" where
  "header_or hs name dflt =
     (case map_of hs name of None \<Rightarrow> dflt | Some v \<Rightarrow> (if v = [] then dflt else v))"

definition upstream_options_headers :: "config \<Rightarrow> request \<Rightarrow> (string \<times> string) list" where
  "upstream_options_headers cfg req =
     [(''Content-Type'', header_or (req_headers req) ''content-type'' ''application/json''),
      (''Accept'', header_or (req_headers req) ''accept'' ''*/*''),
      (''Authorization'', ''Bearer '' @ OPENROUTER_API_KEY cfg),
      (''HTTP-Referer'',
         header_or (req_headers req) ''http-referer'' (header_or (req_headers req) ''referer'' [])),
      (''X-Title'', header_or (req_headers req) ''x-title'' ''Express Proxy''),
      (''X-Request-Id'', req_id req)]"

text \<open>
  The progress of the outbound call: no response yet, the response is being piped through
  the \<open>PassThrough\<close> (with \<open>upstreamRes.statusCode\<close>), the pipe has ended, or the
  outbound request has failed.
\<close>

datatype phase = AwaitingResponse | Streaming "nat option" | Completed | Failed

record proxy_state =
  res_statusCode :: nat
  res_headersSent :: bool
  res_headers :: "(string \<times> string) list"
  res_body :: "payload list"
  res_finished :: bool
  up_headers :: "(string \<times> string) list"
  up_written :: string
  up_ended :: bool
  up_destroyed :: bool
  phase :: phase
  st_agent :: string
  inBytes :: nat
  estTokens :: nat
  startUpstream :: int
  outBytes :: nat
  high_input_warning :: bool
  insert_failed :: bool
  uncaught :: "string option"
  db :: stats_db

text \<open>
  What the upstream connection does, as the calls of the registered callbacks: the
  response callback of \<open>https.request\<close>, \<open>data\<close> and \<open>end\<close> of the \<open>PassThrough\<close>
  (\<open>UpEnd\<close> carries the two readings of \<open>Date.now()\<close> and whether \<open>insertStat.run\<close>
  returns rather than throws), the socket timeout and the \<open>error\<close> event.
  On a timeout the handler destroys the outbound request itself; an \<open>error\<close> event
  comes from a connection that is already gone. Each listener runs while its emitter
  lives: the response callback once, \<open>data\<close> and \<open>end\<close> while the pipe is open,
  \<open>timeout\<close> and \<open>error\<close> until the call has completed or failed.
  The idle timer on the inbound request (lines 161 to 163) is not among the events.
\<close>

datatype upstream_event =
    UpResponse "nat option" "(string \<times> string) list"
  | UpData string
  | UpEnd int int bool
  | UpTimeout
  | UpError js_error

text \<open>The synchronous part of the handler, up to \<open>upstreamReq.end()\<close>.\<close>

definition warn_threshold :: "config \<Rightarrow> string \<Rightarrow> nat" where
  "warn_threshold cfg a =
     (let t = (if a = ''manager'' then WARN_TOKENS_MANAGER cfg
               else if a = ''coder'' then WARN_TOKENS_CODER cfg
               else if a = ''tester'' then WARN_TOKENS_TESTER cfg
               else 0)
      in if t = 0 then WARN_TOKENS_MANAGER cfg else t)"

definition proxyHandler_start :: "config \<Rightarrow> stats_db \<Rightarrow> int \<Rightarrow> request \<Rightarrow> proxy_state" where
  "proxyHandler_start cfg d now req =
     (let body = (case rawBody req of Some s \<Rightarrow> s | None \<Rightarrow> []);
          inB = length body;
          estT = inB div 4;
          a = classify_agent (originalUrl req)
      in \<lparr> res_statusCode = 200, res_headersSent = False, res_headers = [],
           res_body = [], res_finished = False,
           up_headers = upstream_options_headers cfg req,
           up_written = (if body \<noteq> [] then body else []),
           up_ended = True, up_destroyed = False,
           phase = AwaitingResponse,
           st_agent = a, inBytes = inB, estTokens = estT, startUpstream = now,
           outBytes = 0,
           high_input_warning = (estT > warn_threshold cfg a),
           insert_failed = False, uncaught = None, db = d \<rparr>)"

text \<open>
  The \<open>error\<close> listener (lines 229 to 233). \<open>res.type\<close> sets a header, which throws
  \<open>ERR_HTTP_HEADERS_SENT\<close> once the head has been written; nothing catches it.
\<close>

definition on_error :: "proxy_state \<Rightarrow> js_error \<Rightarrow> proxy_state" where
  "on_error st err =
     (let st1 = (if \<not> res_headersSent st then st\<lparr>res_statusCode := 502\<rparr> else st)
      in if res_headersSent st1
         then st1\<lparr>phase := Failed, uncaught := Some ''ERR_HTTP_HEADERS_SENT''\<rparr>
         else st1\<lparr>phase := Failed,
                  res_headers := [(''Content-Type'', ''application/json'')],
                  res_headersSent := True,
                  res_body := res_body st1 @
                    [JsonText (JObj [(''error'', JStr ''Bad Gateway''),
                                     (''detail'', JStr (error_detail err))])],
                  res_finished := True\<rparr>)"

definition timeout_error :: "config \<Rightarrow> js_error" where
  "timeout_error cfg =
     \<lparr> err_name = ''Error'',
       err_message = [CHR 0xE2, CHR 0x8F, CHR 0xB3] @ '' Upstream timeout after ''
                     @ show_nat (UPSTREAM_TIMEOUT_MS cfg) @ ''ms'' \<rparr>"

text \<open>The \<open>end\<close> listener of the \<open>PassThrough\<close> (lines 211 to 221), then the pipe ends \<open>res\<close>.\<close>

definition on_end :: "proxy_state \<Rightarrow> nat option \<Rightarrow> int \<Rightarrow> int \<Rightarrow> bool \<Rightarrow> proxy_state" where
  "on_end st sc t1 t2 ok =
     (let ms = t1 - startUpstream st;
          r = \<lparr> row_id = 0, ts = t2, agent = st_agent st,
                in_bytes = int (inBytes st), est_tokens = int (estTokens st),
                out_bytes = int (outBytes st),
                upstream_status = (case sc of Some s \<Rightarrow> int s | None \<Rightarrow> 0),
                duration_ms = ms \<rparr>;
          st1 = (case db st of
                   None \<Rightarrow> st
                 | Some rows \<Rightarrow>
                     (if ok then st\<lparr>db := Some (insertStat rows r)\<rparr>
                      else st\<lparr>insert_failed := True\<rparr>))
      in st1\<lparr>phase := Completed, res_finished := True\<rparr>)"

definition on_response :: "proxy_state \<Rightarrow> nat option \<Rightarrow> (string \<times> string) list \<Rightarrow> proxy_state" where
  "on_response st sc hdrs =
     (if res_headersSent st
      then st\<lparr>phase := Failed, uncaught := Some ''ERR_HTTP_HEADERS_SENT''\<rparr>
      else st\<lparr>res_statusCode := (case sc of None \<Rightarrow> 502 | Some s \<Rightarrow> (if s = 0 then 502 else s)),
              res_headers := hdrs, res_headersSent := True,
              outBytes := 0, phase := Streaming sc\<rparr>)"

fun step :: "config \<Rightarrow> proxy_state \<Rightarrow> upstream_event \<Rightarrow> proxy_state" where
  "step cfg st (UpResponse sc hdrs) =
     (if phase st = AwaitingResponse then on_response st sc hdrs else st)"
| "step cfg st (UpData chunk) =
     (case phase st of
        Streaming sc \<Rightarrow> st\<lparr>outBytes := outBytes st + length chunk,
                            res_body := res_body st @ [Raw chunk]\<rparr>
      | _ \<Rightarrow> st)"
| "step cfg st (UpEnd t1 t2 ok) =
     (case phase st of Streaming sc \<Rightarrow> on_end st sc t1 t2 ok | _ \<Rightarrow> st)"
| "step cfg st UpTimeout =
     (if phase st = Completed \<or> phase st = Failed then st
      else on_error (st\<lparr>up_destroyed := True\<rparr>) (timeout_error cfg))"
| "step cfg st (UpError err) =
     (if phase st = Completed \<or> phase st = Failed then st
      else on_error st err)"

definition proxyHandler ::
  "config \<Rightarrow> stats_db \<Rightarrow> int \<Rightarrow> request \<Rightarrow> upstream_event list \<Rightarrow> proxy_state" where
  "proxyHandler cfg d now req evs = foldl (step cfg) (proxyHandler_start cfg d now req) evs"

section \<open>Observing one request\<close>

text \<open>The rows a request has added to the store: those of the table afterwards, past the
  rows that were there before.\<close>

definition appended :: "stats_db \<Rightarrow> stats_db \<Rightarrow> stat_row list" where
  "appended d d' =
     (case (d, d') of (Some rows, Some rows') \<Rightarrow> drop (length rows) rows' | _ \<Rightarrow> [])"

definition telemetry_of :: "proxy_state \<Rightarrow> stat_row \<Rightarrow> bool" where
  "telemetry_of st r =
     (agent r = st_agent st \<and> in_bytes r = int (inBytes st)
      \<and> est_tokens r = int (estTokens st) \<and> out_bytes r = int (outBytes st))"

text \<open>What holds of the store throughout a request that started on store \<open>d0\<close>.\<close>

definition store_inv :: "stats_db \<Rightarrow> proxy_state \<Rightarrow> bool" where
  "store_inv d0 st =
     (if phase st = Completed
      then (case d0 of
              None \<Rightarrow> db st = None
            | Some rows \<Rightarrow>
                if insert_failed st then db st = d0
                else (\<exists>r. db st = Some (rows @ [r]) \<and> telemetry_of st r))
      else db st = d0 \<and> \<not> insert_failed st)"

text \<open>The configuration with the defaults of lines 24 and 196 to 198, and a request.\<close>

definition default_config :: config where
  "default_config =
     \<lparr> OPENROUTER_API_KEY = ''sk-or-test'', UPSTREAM_TIMEOUT_MS = 60000,
       WARN_TOKENS_MANAGER = 2000, WARN_TOKENS_CODER = 6000, WARN_TOKENS_TESTER = 4000 \<rparr>"

definition example_request :: request where
  "example_request =
     \<lparr> req_method = ''POST'', originalUrl = ''/v1/chat/completions?agent=coder'',
       req_headers = [(''content-type'', ''application/json'')],
       rawBody = Some ''{\"model\":\"m\"}'', req_id = ''req-1'',
       req_query = \<lparr> query_periodMinutes = None, query_agent = Some ''coder'' \<rparr> \<rparr>"

definition refused :: js_error where
  "refused = \<lparr> err_name = ''Error'', err_message = ''connect ECONNREFUSED'' \<rparr>"

text \<open>The JSON text \<open>{"n":"e"}\<close> with the letter an e acute in ISO 8859-1, the byte \<open>E9\<close>.\<close>

definition latin1_body :: string where
  "latin1_body = ''{\"n\":\"'' @ [CHR 0xE9] @ ''\"}''"

text \<open>The same JSON text in UTF-16, low byte first, as a client that declares
  \<open>charset=utf-16\<close> sends it.\<close>

definition utf16_body :: string where
  "utf16_body =
     [CHR ''{'', CHR 0x00, CHR 0x22, CHR 0x00, CHR ''n'', CHR 0x00, CHR 0x22, CHR 0x00,
      CHR '':'', CHR 0x00, CHR 0x22, CHR 0x00, CHR 0xE9, CHR 0x00, CHR 0x22, CHR 0x00,
      CHR ''}'', CHR 0x00]"

text \<open>The request once the upstream response head and the chunks \<open>cs\<close> have been relayed.\<close>

definition relayed :: "config \<Rightarrow> stats_db \<Rightarrow> int \<Rightarrow> request \<Rightarrow> nat option \<Rightarrow> (string \<times> string) list \<Rightarrow> string list \<Rightarrow> proxy_state" where
  "relayed cfg d now req sc h cs = proxyHandler cfg d now req (UpResponse sc h # map UpData cs)"


section \<open>Queries of the telemetry store (lines 57 to 84)\<close>

text \<open>\<open>ts >= ?\<close> with a bound parameter.\<close>

fun ts_ge :: "int \<Rightarrow> jsnum \<Rightarrow> bool" where
  "ts_ge t (Num r) = (r \<le> of_int t)"
| "ts_ge t NegInfinity = True"
| "ts_ge t PosInfinity = False"
| "ts_ge t NaN = False"

text \<open>
  The numbers of SQLite and of JavaScript. An \<open>INTEGER\<close> column and the accumulator of
  \<open>SUM\<close> hold 64 bits; \<open>SUM\<close> over integers throws \<open>integer overflow\<close> as soon as a
  partial sum leaves that range, the rows taken in the order of their insertion. With
  values that are not negative, as the byte counts of the proxy are, the order of the rows
  makes no difference: the statement throws when the whole sum does not fit.
\<close>

definition int64 :: "int \<Rightarrow> bool" where
  "int64 n = (- 9223372036854775808 \<le> n \<and> n \<le> 9223372036854775807)"

fun sum64 :: "int list \<Rightarrow> int \<Rightarrow> int option" where
  "sum64 [] acc = Some acc"
| "sum64 (x # xs) acc = (if int64 (acc + x) then sum64 xs (acc + x) else None)"

definition sql_sum :: "int list \<Rightarrow> int option" where
  "sql_sum xs = sum64 xs 0"

text \<open>
  A double (IEEE 754 binary64) is an integer of at most 53 bits times a power of two.
  \<open>binary64_parts n d\<close> is the double nearest to the quotient \<open>n / d\<close>, ties to the even
  significand, as significand and exponent: the exponent is chosen so that the scaled
  quotient lies between \<open>2^52\<close> and \<open>2^53\<close> (not below the least exponent, \<open>-1074\<close>),
  and the scaled quotient is rounded to an integer. Quotients of 64-bit integers are far
  below the largest double, so there is no case for an infinity.
\<close>

function ilog2 :: "int \<Rightarrow> int" where
  "ilog2 n = (if n < 2 then 0 else 1 + ilog2 (n div 2))"
  by pat_completeness auto
termination
  by (relation "measure nat") auto

declare ilog2.simps [simp del]

definition pow2 :: "int \<Rightarrow> rat" where
  "pow2 e = (if 0 \<le> e then 2 ^ nat e else 1 / 2 ^ nat (- e))"

text \<open>\<open>(a / b) / 2^e\<close> as a fraction of integers.\<close>

definition scaled :: "int \<Rightarrow> int \<Rightarrow> int \<Rightarrow> int \<times> int" where
  "scaled a b e = (if e \<le> 0 then (a * 2 ^ nat (- e), b) else (a, b * 2 ^ nat e))"

definition round_div :: "int \<Rightarrow> int \<Rightarrow> int" where
  "round_div N D =
     (let q = N div D; r = N mod D
      in if 2 * r < D then q else if D < 2 * r then q + 1 else if even q then q else q + 1)"

definition binary64_parts :: "int \<Rightarrow> int \<Rightarrow> int \<times> int" where
  "binary64_parts n d =
     (if n = 0 \<or> d = 0 then (0, 0)
      else
        (let a = \<bar>n\<bar>; b = \<bar>d\<bar>;
             k = ilog2 a - ilog2 b;
             E = (if fst (scaled a b k) < snd (scaled a b k) then k - 1 else k);
             e = max (E - 52) (- 1074);
             m = round_div (fst (scaled a b e)) (snd (scaled a b e))
         in (sgn n * sgn d * m, e)))"

definition binary64_quot :: "int \<Rightarrow> int \<Rightarrow> rat" where
  "binary64_quot n d = of_int (fst (binary64_parts n d)) * pow2 (snd (binary64_parts n d))"

text \<open>
  \<open>better-sqlite3\<close> hands a 64-bit integer to JavaScript as the nearest double, which is
  the integer itself up to \<open>2^53\<close>.
\<close>

definition double_of_int :: "int \<Rightarrow> int" where
  "double_of_int n =
     (if \<bar>n\<bar> \<le> 9007199254740992 then n
      else fst (binary64_parts n 1) * 2 ^ nat (snd (binary64_parts n 1)))"

record summary_row =
  sum_agent :: string
  requests :: int
  sum_in :: int
  sum_out :: int
  avg_ms :: rat

text \<open>
  \<open>SELECT agent, COUNT(*), SUM(in_bytes), SUM(out_bytes), AVG(duration_ms) ... GROUP BY
  agent\<close> over the rows that passed the \<open>WHERE\<close> clause: one row for each agent that
  occurs. Without an index SQLite groups through a sorter, so the groups come back in
  ascending order of \<open>agent\<close> under the collation \<open>BINARY\<close>, the order of the bytes.
  \<open>AVG\<close> divides the sum of the durations by the count, both as doubles, and yields a
  double. While every running sum of the durations is within \<open>2^53\<close> milliseconds
  (285 000 years) that sum is exact, whether SQLite adds in 64 bits or in doubles; beyond
  that the model takes the double nearest to the exact sum. \<open>AVG\<close> never throws.
  A table of at most 281 TB has fewer than \<open>2^53\<close> rows, so the counts are exact.
  The statement throws when a \<open>SUM\<close> does, \<open>Inl\<close> here.
\<close>

definition summary_of :: "string \<Rightarrow> stat_row list \<Rightarrow> summary_row" where
  "summary_of a g =
     \<lparr> sum_agent = a, requests = int (length g),
       sum_in = double_of_int (sum_list (map in_bytes g)),
       sum_out = double_of_int (sum_list (map out_bytes g)),
       avg_ms = binary64_quot (double_of_int (sum_list (map duration_ms g))) (int (length g)) \<rparr>"

definition group_by_agent :: "stat_row list \<Rightarrow> string + summary_row list" where
  "group_by_agent rows =
     (let groups = map (\<lambda>a. (a, filter (\<lambda>r. agent r = a) rows)) (sort (remdups (map agent rows)))
      in if list_all (\<lambda>(a, g). sql_sum (map in_bytes g) \<noteq> None
                              \<and> sql_sum (map out_bytes g) \<noteq> None) groups
         then Inr (map (\<lambda>(a, g). summary_of a g) groups)
         else Inl ''integer overflow'')"

definition selectSummaryAll :: "stat_row list \<Rightarrow> string + summary_row list" where
  "selectSummaryAll rows = group_by_agent rows"

definition selectSummarySince :: "stat_row list \<Rightarrow> jsnum \<Rightarrow> string + summary_row list" where
  "selectSummarySince rows since = group_by_agent (filter (\<lambda>r. ts_ge (ts r) since) rows)"

definition selectSummaryByAgentAll :: "stat_row list \<Rightarrow> string \<Rightarrow> string + summary_row list" where
  "selectSummaryByAgentAll rows a = group_by_agent (filter (\<lambda>r. agent r = a) rows)"

definition selectSummaryByAgentSince ::
  "stat_row list \<Rightarrow> jsnum \<Rightarrow> string \<Rightarrow> string + summary_row list" where
  "selectSummaryByAgentSince rows since a =
     group_by_agent (filter (\<lambda>r. ts_ge (ts r) since \<and> agent r = a) rows)"

text \<open>\<open>SELECT id, ts, ... ORDER BY id ASC\<close>\<close>

definition selectAllRows :: "stat_row list \<Rightarrow> stat_row list" where
  "selectAllRows rows = sort_key row_id rows"

definition selectRowsSince :: "stat_row list \<Rightarrow> jsnum \<Rightarrow> stat_row list" where
  "selectRowsSince rows since = sort_key row_id (filter (\<lambda>r. ts_ge (ts r) since) rows)"

definition selectRowsByAgentAll :: "stat_row list \<Rightarrow> string \<Rightarrow> stat_row list" where
  "selectRowsByAgentAll rows a = sort_key row_id (filter (\<lambda>r. agent r = a) rows)"

definition selectRowsByAgentSince :: "stat_row list \<Rightarrow> jsnum \<Rightarrow> string \<Rightarrow> stat_row list" where
  "selectRowsByAgentSince rows since a =
     sort_key row_id (filter (\<lambda>r. ts_ge (ts r) since \<and> agent r = a) rows)"

text \<open>
  \<open>summarize(sinceTimestamp?, agentFilter?)\<close> of the specification is the choice among
  the four summary statements that both reporting handlers make.
\<close>

definition summarize ::
  "stat_row list \<Rightarrow> jsnum option \<Rightarrow> string option \<Rightarrow> string + summary_row list" where
  "summarize rows since a =
     (case (since, a) of
        (None, None) \<Rightarrow> selectSummaryAll rows
      | (Some s, None) \<Rightarrow> selectSummarySince rows s
      | (None, Some g) \<Rightarrow> selectSummaryByAgentAll rows g
      | (Some s, Some g) \<Rightarrow> selectSummaryByAgentSince rows s g)"

definition listRaw :: "stat_row list \<Rightarrow> jsnum option \<Rightarrow> string option \<Rightarrow> stat_row list" where
  "listRaw rows since a =
     (case (since, a) of
        (None, None) \<Rightarrow> selectAllRows rows
      | (Some s, None) \<Rightarrow> selectRowsSince rows s
      | (None, Some g) \<Rightarrow> selectRowsByAgentAll rows g
      | (Some s, Some g) \<Rightarrow> selectRowsByAgentSince rows s g)"

section \<open>Reporting handlers (lines 258 to 305)\<close>

record http_response =
  status :: nat
  content_type :: string
  body :: "payload list"

definition res_json :: "nat \<Rightarrow> json \<Rightarrow> http_response" where
  "res_json code v = \<lparr> status = code, content_type = ''application/json'', body = [JsonText v] \<rparr>"

definition mins_of :: "query \<Rightarrow> jsnum" where
  "mins_of q = (case query_periodMinutes q of None \<Rightarrow> Num 0 | Some n \<Rightarrow> n)"

definition agent_of :: "query \<Rightarrow> string" where
  "agent_of q = (case query_agent q of None \<Rightarrow> [] | Some v \<Rightarrow> toLowerCase v)"

text \<open>\<open>mins && mins > 0\<close>\<close>

fun positive :: "jsnum \<Rightarrow> bool" where
  "positive (Num r) = (0 < r)"
| "positive PosInfinity = True"
| "positive _ = False"

text \<open>\<open>Date.now() - mins * 60 * 1000\<close>\<close>

fun since_of :: "int \<Rightarrow> jsnum \<Rightarrow> jsnum" where
  "since_of now (Num r) = Num (of_int now - r * 60 * 1000)"
| "since_of now PosInfinity = NegInfinity"
| "since_of now NegInfinity = PosInfinity"
| "since_of now NaN = NaN"

text \<open>\<open>mins || null\<close> and \<open>agent || null\<close> under \<open>JSON.stringify\<close>; an infinity is
  written as \<open>null\<close>.\<close>

fun json_of_mins :: "jsnum \<Rightarrow> json" where
  "json_of_mins (Num r) = (if r = 0 then JNull else JRat r)"
| "json_of_mins _ = JNull"

definition json_of_agent :: "string \<Rightarrow> json" where
  "json_of_agent a = (if a = [] then JNull else JStr a)"

definition json_of_summary :: "summary_row \<Rightarrow> json" where
  "json_of_summary s =
     JObj [(''agent'', JStr (sum_agent s)), (''requests'', JInt (requests s)),
           (''sum_in'', JInt (sum_in s)), (''sum_out'', JInt (sum_out s)),
           (''avg_ms'', JRat (avg_ms s))]"

text \<open>
  \<open>GET /stats\<close> (lines 258 to 275): the choice among the four summary statements, then
  the answer. A statement that throws is caught at line 271 and answered with status 500.
  \<open>stats_rows\<close> are the summary rows of the answer, none when the statement throws.
\<close>

definition stats_query :: "stat_row list \<Rightarrow> int \<Rightarrow> query \<Rightarrow> string + summary_row list" where
  "stats_query rows now q =
     (let mins = mins_of q; a = agent_of q
      in if positive mins
         then (let since = since_of now mins
               in if a \<noteq> [] then selectSummaryByAgentSince rows since a
                  else selectSummarySince rows since)
         else (if a \<noteq> [] then selectSummaryByAgentAll rows a else selectSummaryAll rows))"

definition stats_rows :: "stat_row list \<Rightarrow> int \<Rightarrow> query \<Rightarrow> summary_row list" where
  "stats_rows rows now q = (case stats_query rows now q of Inr rs \<Rightarrow> rs | Inl e \<Rightarrow> [])"

definition stats_handler :: "stats_db \<Rightarrow> int \<Rightarrow> query \<Rightarrow> http_response" where
  "stats_handler d now q =
     (case d of
        None \<Rightarrow> res_json 200 (JObj [(''error'', JStr ''stats persistence disabled'')])
      | Some rows \<Rightarrow>
          (case stats_query rows now q of
             Inl e \<Rightarrow> res_json 500 (JObj [(''error'', JStr ''stats query failed'')])
           | Inr rs \<Rightarrow>
               res_json 200
                 (JObj [(''periodMinutes'', json_of_mins (mins_of q)),
                        (''agent'', json_of_agent (agent_of q)),
                        (''summary'', JArr (map json_of_summary rs))])))"

definition export_rows :: "stat_row list \<Rightarrow> int \<Rightarrow> query \<Rightarrow> stat_row list" where
  "export_rows rows now q =
     (let mins = mins_of q; a = agent_of q
      in if positive mins
         then (let since = since_of now mins
               in if a \<noteq> [] then selectRowsByAgentSince rows since a
                  else selectRowsSince rows since)
         else (if a \<noteq> [] then selectRowsByAgentAll rows a else selectAllRows rows))"

section \<open>Dates (\<open>new Date(ts).toISOString()\<close>, line 297)\<close>

text \<open>
  The civil date of a time value, after ECMA-262, 21.4.1: \<open>DayFromYear\<close> is the day
  number of the first of January, the year of a day is the last year that starts on or
  before it, and the month and the date come from the day within the year.
\<close>

definition DayFromYear :: "int \<Rightarrow> int" where
  "DayFromYear y = 365 * (y - 1970) + (y - 1969) div 4 - (y - 1901) div 100 + (y - 1601) div 400"

definition InLeapYear :: "int \<Rightarrow> bool" where
  "InLeapYear y = (y mod 4 = 0 \<and> (y mod 100 \<noteq> 0 \<or> y mod 400 = 0))"

text \<open>A year has 365 or 366 days, which is what makes the search for the year end.\<close>

lemma div_step:
  fixes x n :: int
  assumes n: "0 < n"
  shows "(x + 1) div n = x div n + (if (x + 1) mod n = 0 then 1 else 0)"
proof -
  define q r where "q = x div n" and "r = x mod n"
  have x: "x = n * q + r" by (simp add: q_def r_def)
  have r: "0 \<le> r" "r < n" using n by (simp_all add: r_def)
  show ?thesis
  proof (cases "r + 1 = n")
    case True
    have e: "x + 1 = n * (q + 1) + 0" using x True by (simp add: algebra_simps)
    have "(x + 1) div n = q + 1" by (rule int_div_pos_eq[OF e]) (use n in simp_all)
    moreover have "(x + 1) mod n = 0" by (rule int_mod_pos_eq[OF e]) (use n in simp_all)
    ultimately show ?thesis by (simp add: q_def)
  next
    case False
    have e: "x + 1 = n * q + (r + 1)" using x by simp
    have b: "0 \<le> r + 1" "r + 1 < n" using r False by simp_all
    have "(x + 1) div n = q" by (rule int_div_pos_eq[OF e b])
    moreover have "(x + 1) mod n = r + 1" by (rule int_mod_pos_eq[OF e b])
    ultimately show ?thesis using r by (simp add: q_def)
  qed
qed

lemma mod_shift: "(k::int) dvd c \<Longrightarrow> ((y - c) mod k = 0) = (y mod k = 0)"
  by (simp add: mod_eq_0_iff_dvd dvd_diff_left_iff)

lemma div_pred:
  fixes y c n :: int
  assumes "0 < n" and "n dvd c"
  shows "(y - c) div n = (y - (c + 1)) div n + (if y mod n = 0 then 1 else 0)"
proof -
  have eq: "y - (c + 1) + 1 = y - c" by (simp only: algebra_simps)
  show ?thesis
    using div_step[OF assms(1), of "y - (c + 1)"] mod_shift[OF assms(2), of y]
    by (simp only: eq)
qed

lemma DayFromYear_step:
  "DayFromYear (y + 1) = DayFromYear y + (if InLeapYear y then 366 else 365)"
proof -
  define L4 L100 L400 where "L4 = (y mod 4 = 0)" and "L100 = (y mod 100 = 0)"
    and "L400 = (y mod 400 = 0)"
  define a0 b0 c0 where "a0 = (y - 1969) div 4" and "b0 = (y - 1901) div 100"
    and "c0 = (y - 1601) div 400"
  define a1 b1 c1 where "a1 = (y - 1968) div 4" and "b1 = (y - 1900) div 100"
    and "c1 = (y - 1600) div 400"
  have p4: "(0::int) < 4" "(4::int) dvd 1968" "(1968::int) + 1 = 1969" by simp_all
  have p100: "(0::int) < 100" "(100::int) dvd 1900" "(1900::int) + 1 = 1901" by simp_all
  have p400: "(0::int) < 400" "(400::int) dvd 1600" "(1600::int) + 1 = 1601" by simp_all
  have a: "a1 = a0 + (if L4 then 1 else 0)"
    using div_pred[OF p4(1,2), of y] by (simp only: p4(3) a0_def a1_def L4_def)
  have b: "b1 = b0 + (if L100 then 1 else 0)"
    using div_pred[OF p100(1,2), of y] by (simp only: p100(3) b0_def b1_def L100_def)
  have c: "c1 = c0 + (if L400 then 1 else 0)"
    using div_pred[OF p400(1,2), of y] by (simp only: p400(3) c0_def c1_def L400_def)
  have "(100::int) dvd 400" by simp
  then have d: "L400 \<Longrightarrow> L100"
    unfolding L400_def L100_def mod_eq_0_iff_dvd by (rule dvd_trans)
  have "(4::int) dvd 100" by simp
  then have e: "L100 \<Longrightarrow> L4"
    unfolding L4_def L100_def mod_eq_0_iff_dvd by (rule dvd_trans)
  have k: "y + 1 - 1970 = y - 1969" "y + 1 - 1969 = y - 1968" "y + 1 - 1901 = y - 1900"
    "y + 1 - 1601 = y - 1600" by simp_all
  have n: "DayFromYear (y + 1) = 365 * (y - 1969) + a1 - b1 + c1"
    by (simp only: DayFromYear_def k a1_def b1_def c1_def)
  have o: "DayFromYear y = 365 * (y - 1970) + a0 - b0 + c0"
    by (simp only: DayFromYear_def a0_def b0_def c0_def)
  have l: "InLeapYear y = (L4 \<and> (\<not> L100 \<or> L400))"
    by (simp only: InLeapYear_def L4_def L100_def L400_def)
  have "365 * (y - 1969) + a1 - b1 + c1 = 365 * (y - 1970) + a0 - b0 + c0 + (if L4 \<and> (\<not> L100 \<or> L400) then 366 else 365)"
    using a b c d e by (cases L4; cases L100; cases L400; simp)
  then show ?thesis
    by (simp only: n o l)
qed

lemma DayFromYear_less: "DayFromYear y < DayFromYear (y + 1)"
  by (simp only: DayFromYear_step split: if_splits) simp

function year_up :: "int \<Rightarrow> int \<Rightarrow> int" where
  "year_up d y = (if DayFromYear (y + 1) \<le> d then year_up d (y + 1) else y)"
  by pat_completeness auto
termination
proof (relation "measure (\<lambda>(d, y). nat (d + 1 - DayFromYear (y + 1)))")
  show "wf (measure (\<lambda>(d, y). nat (d + 1 - DayFromYear (y + 1))))" by simp
next
  fix d y assume "DayFromYear (y + 1) \<le> d"
  then show "((d, y + 1), (d, y)) \<in> measure (\<lambda>(d, y). nat (d + 1 - DayFromYear (y + 1)))"
    using DayFromYear_less[of "y + 1"] by simp
qed

function year_down :: "int \<Rightarrow> int \<Rightarrow> int" where
  "year_down d y = (if d < DayFromYear y then year_down d (y - 1) else y)"
  by pat_completeness auto
termination
proof (relation "measure (\<lambda>(d, y). nat (DayFromYear y - d))")
  show "wf (measure (\<lambda>(d, y). nat (DayFromYear y - d)))" by simp
next
  fix d y assume "d < DayFromYear y"
  then show "((d, y - 1), (d, y)) \<in> measure (\<lambda>(d, y). nat (DayFromYear y - d))"
    using DayFromYear_less[of "y - 1"] by simp
qed

declare year_up.simps [simp del] year_down.simps [simp del]

definition YearFromDay :: "int \<Rightarrow> int" where
  "YearFromDay d = (if 0 \<le> d then year_up d 1970 else year_down d 1969)"

text \<open>The day within the year on which month \<open>m\<close> (from 0) starts.\<close>

definition MonthStart :: "bool \<Rightarrow> nat \<Rightarrow> int" where
  "MonthStart leap m =
     (let l = (if leap then 1 else 0)
      in [0, 31, 59 + l, 90 + l, 120 + l, 151 + l, 181 + l, 212 + l, 243 + l, 273 + l,
          304 + l, 334 + l] ! m)"

definition MonthFromDay :: "int \<Rightarrow> bool \<Rightarrow> nat" where
  "MonthFromDay diy leap =
     (let l = (if leap then 1 else 0)
      in if diy < 31 then 0
         else if diy < 59 + l then 1
         else if diy < 90 + l then 2
         else if diy < 120 + l then 3
         else if diy < 151 + l then 4
         else if diy < 181 + l then 5
         else if diy < 212 + l then 6
         else if diy < 243 + l then 7
         else if diy < 273 + l then 8
         else if diy < 304 + l then 9
         else if diy < 334 + l then 10
         else 11)"

text \<open>A number in at least \<open>k\<close> digits, zeros in front.\<close>

definition pad :: "nat \<Rightarrow> nat \<Rightarrow> string" where
  "pad k n = replicate (k - length (show_nat n)) CHR ''0'' @ show_nat n"

definition year_string :: "int \<Rightarrow> string" where
  "year_string y =
     (if 0 \<le> y \<and> y \<le> 9999 then pad 4 (nat y)
      else (if y < 0 then CHR ''-'' else CHR ''+'') # pad 6 (nat \<bar>y\<bar>))"

text \<open>
  \<open>toISOString\<close>: \<open>None\<close> is the \<open>RangeError\<close> for a time value outside the range of
  \<open>Date\<close>.
\<close>

definition toISOString :: "int \<Rightarrow> string option" where
  "toISOString t =
     (if \<bar>t\<bar> > 8640000000000000 then None
      else
        (let day = t div 86400000;
             ms = nat (t mod 86400000);
             y = YearFromDay day;
             diy = day - DayFromYear y;
             m = MonthFromDay diy (InLeapYear y);
             dt = nat (diy - MonthStart (InLeapYear y) m + 1)
         in Some (year_string y @ ''-'' @ pad 2 (m + 1) @ ''-'' @ pad 2 dt @ ''T''
                  @ pad 2 (ms div 3600000) @ '':'' @ pad 2 (ms div 60000 mod 60) @ '':''
                  @ pad 2 (ms div 1000 mod 60) @ ''.'' @ pad 3 (ms mod 1000) @ ''Z'')))"

section \<open>CSV export (GET /stats/export, lines 278 to 305)\<close>

definition csv_header :: string where
  "csv_header =
     ''id,ts_iso,agent,in_bytes,est_tokens,out_bytes,upstream_status,duration_ms'' @ [CHR 0x0A]"

definition csv_row :: "stat_row \<Rightarrow> string option" where
  "csv_row r =
     (case toISOString (ts r) of
        None \<Rightarrow> None
      | Some tsIso \<Rightarrow>
          Some (show_int (row_id r) @ '','' @ tsIso @ '','' @ agent r @ '',''
                @ show_int (in_bytes r) @ '','' @ show_int (est_tokens r) @ '',''
                @ show_int (out_bytes r) @ '','' @ show_int (upstream_status r) @ '',''
                @ show_int (duration_ms r) @ [CHR 0x0A]))"

text \<open>
  The export handler. The rows are written one by one after the header row; a row whose
  timestamp \<open>toISOString\<close> rejects throws into the \<open>catch\<close> of line 301, \<open>Inl\<close> here,
  with the head and the rows before it already sent. The \<open>Content-Disposition\<close> header,
  whose file name renders \<open>mins\<close> and the current time, is not part of the model.
\<close>

definition stats_export_handler :: "stats_db \<Rightarrow> int \<Rightarrow> query \<Rightarrow> string + http_response" where
  "stats_export_handler d now q =
     (case d of
        None \<Rightarrow> Inr (res_json 400 (JObj [(''error'', JStr ''stats persistence disabled'')]))
      | Some rows \<Rightarrow>
          (case those (map csv_row (export_rows rows now q)) of
             None \<Rightarrow> Inl ''RangeError: Invalid time value''
           | Some lines \<Rightarrow>
               Inr \<lparr> status = 200, content_type = ''text/csv; charset=utf-8'',
                     body = Raw csv_header # map Raw lines \<rparr>))"

section \<open>Routing (lines 131 to 305)\<close>

text \<open>
  Express keeps the handlers in the order of their registration and gives a request to
  the first one that matches; none of the handlers here passes a request on. A route
  matches its method and its path, with letter case and one trailing slash ignored, and
  a \<open>GET\<close> route also serves \<open>HEAD\<close>. \<open>app.use(fn)\<close> matches every request,
  \<open>app.use(path, fn)\<close> every path under \<open>path\<close>, and a handler of four arguments
  only a request with a pending error. The middleware of lines 94 to 128 hands every
  request on and is not listed. \<open>app_stack\<close> holds the registrations of lines 131, 147,
  152, 240 to 242, 245, 251, 258 and 278, in that order.
\<close>

datatype handler =
  HealthH | OpenApiH | SwaggerH | ProxyH | NotFoundH | StatsH | StatsExportH

datatype layer =
    Route string string handler
  | Use handler
  | UseAt string handler
  | ErrorUse

definition app_stack :: "bool \<Rightarrow> layer list" where
  "app_stack docs =
     [Route ''GET'' ''/health'' HealthH,
      Route ''GET'' ''/openapi.json'' OpenApiH]
     @ (if docs then [UseAt ''/docs'' SwaggerH] else [])
     @ [Route ''POST'' ''/'' ProxyH,
        Route ''POST'' ''/v1/chat/completions'' ProxyH,
        Route ''POST'' ''/api/v1/chat/completions'' ProxyH,
        Use NotFoundH,
        ErrorUse,
        Route ''GET'' ''/stats'' StatsH,
        Route ''GET'' ''/stats/export'' StatsExportH]"

definition path_of :: "string \<Rightarrow> string" where
  "path_of u = takeWhile (\<lambda>c. c \<noteq> CHR ''?'') u"

definition norm_path :: "string \<Rightarrow> string" where
  "norm_path p =
     toLowerCase (if p \<noteq> ''/'' \<and> p \<noteq> [] \<and> last p = CHR ''/'' then butlast p else p)"

definition method_matches :: "string \<Rightarrow> string \<Rightarrow> bool" where
  "method_matches m rm = (rm = m \<or> (m = ''GET'' \<and> rm = ''HEAD''))"

fun layer_matches :: "layer \<Rightarrow> string \<Rightarrow> string \<Rightarrow> handler option" where
  "layer_matches (Route m p h) rm path =
     (if method_matches m rm \<and> norm_path path = p then Some h else None)"
| "layer_matches (Use h) rm path = Some h"
| "layer_matches (UseAt p h) rm path =
     (if toLowerCase path = p \<or> take (Suc (length p)) (toLowerCase path) = p @ ''/''
      then Some h else None)"
| "layer_matches ErrorUse rm path = None"

fun dispatch :: "layer list \<Rightarrow> string \<Rightarrow> string \<Rightarrow> handler option" where
  "dispatch [] rm path = None"
| "dispatch (l # ls) rm path =
     (case layer_matches l rm path of Some h \<Rightarrow> Some h | None \<Rightarrow> dispatch ls rm path)"

text \<open>The process as far as the handlers read it.\<close>

record server =
  stats :: stats_db
  docs_mounted :: bool
  openapiSpec :: "json option"
  uptime :: nat
  PORT :: nat

datatype outcome =
    Response http_response
  | Proxying proxy_state
  | Threw string
  | SwaggerUI
  | Unhandled

definition app ::
  "config \<Rightarrow> server \<Rightarrow> int \<Rightarrow> request \<Rightarrow> upstream_event list \<Rightarrow> outcome" where
  "app cfg srv now req evs =
     (case dispatch (app_stack (docs_mounted srv)) (req_method req) (path_of (originalUrl req)) of
        None \<Rightarrow> Unhandled
      | Some HealthH \<Rightarrow>
          Response (res_json 200 (JObj [(''status'', JStr ''ok''), (''uptime'', JInt (int (uptime srv))),
                                        (''port'', JInt (int (PORT srv)))]))
      | Some OpenApiH \<Rightarrow>
          (case openapiSpec srv of
             None \<Rightarrow> Response (res_json 503 (JObj [(''error'', JStr ''openapi spec not available'')]))
           | Some spec \<Rightarrow> Response (res_json 200 spec))
      | Some SwaggerH \<Rightarrow> SwaggerUI
      | Some ProxyH \<Rightarrow> Proxying (proxyHandler cfg (stats srv) now req evs)
      | Some NotFoundH \<Rightarrow> Response (res_json 404 (JObj [(''error'', JStr ''Not Found'')]))
      | Some StatsH \<Rightarrow> Response (stats_handler (stats srv) now (req_query req))
      | Some StatsExportH \<Rightarrow>
          (case stats_export_handler (stats srv) now (req_query req) of
             Inl e \<Rightarrow> Threw e
           | Inr r \<Rightarrow> Response r))"

text \<open>Requests for the two reporting endpoints, and a store with one record.\<close>

definition get_request :: "string \<Rightarrow> query \<Rightarrow> request" where
  "get_request u q =
     \<lparr> req_method = ''GET'', originalUrl = u, req_headers = [], rawBody = None,
       req_id = ''req-2'', req_query = q \<rparr>"

definition no_query :: query where
  "no_query = \<lparr> query_periodMinutes = None, query_agent = None \<rparr>"

definition manager_row :: stat_row where
  "manager_row =
     \<lparr> row_id = 1, ts = 1700000000000, agent = ''manager'', in_bytes = 100, est_tokens = 25,
       out_bytes = 40, upstream_status = 200, duration_ms = 12 \<rparr>"

definition example_server :: "stats_db \<Rightarrow> server" where
  "example_server d =
     \<lparr> stats = d, docs_mounted = False, openapiSpec = None, uptime = 5, PORT = 3003 \<rparr>"

section \<open>The reporting claims in the words of the specification\<close>

text \<open>
  The window of \<open>periodMinutes = mins\<close> at time \<open>now\<close> covers a timestamp: a positive
  \<open>N\<close> covers the timestamps from \<open>now\<close> less \<open>N\<close> minutes on, and anything else
  (zero, negative, not a number) covers all time.
\<close>

fun covers :: "int \<Rightarrow> jsnum \<Rightarrow> int \<Rightarrow> bool" where
  "covers now (Num n) t = (if 0 < n then of_int now - n * 60000 \<le> of_int t else True)"
| "covers now _ t = True"

text \<open>
  A record matches the optional time window and the optional agent filter: it is not older
  than the timestamp \<open>since\<close>, and its agent is the one asked for. Every record is later
  than \<open>-Infinity\<close>, the bound of an unbounded window, and none is later than a bound that
  is not a time.
\<close>

definition matches :: "jsnum option \<Rightarrow> string option \<Rightarrow> stat_row \<Rightarrow> bool" where
  "matches since a r =
     ((case since of
         None \<Rightarrow> True
       | Some (Num s) \<Rightarrow> s \<le> of_int (ts r)
       | Some NegInfinity \<Rightarrow> True
       | Some PosInfinity \<Rightarrow> False
       | Some NaN \<Rightarrow> False)
      \<and> (case a of None \<Rightarrow> True | Some g \<Rightarrow> agent r = g))"

text \<open>The matching records of one agent, in the order of their insertion.\<close>

definition selected ::
  "jsnum option \<Rightarrow> string option \<Rightarrow> stat_row list \<Rightarrow> string \<Rightarrow> stat_row list" where
  "selected since a rows g = filter (\<lambda>r. agent r = g) (filter (matches since a) rows)"

text \<open>
  Adding up a column overflows when the sum of some first \<open>n\<close> values does not fit in 64
  bits, and it is exact in a double when every such sum is within \<open>2^53\<close>.
\<close>

definition overflows :: "int list \<Rightarrow> bool" where
  "overflows xs = (\<exists>n \<in> {..length xs}. \<not> int64 (sum_list (take n xs)))"

definition exact53 :: "int list \<Rightarrow> bool" where
  "exact53 xs = (\<forall>n \<in> {..length xs}. \<bar>sum_list (take n xs)\<bar> \<le> 9007199254740992)"

section \<open>Query strings written from pairs\<close>

text \<open>
  The query string that carries a list of parameters: each pair written as \<open>name=value\<close>,
  the pairs joined by \<open>&\<close>. A name or a value is \<open>plain\<close> when it holds none of the
  characters \<open>&\<close>, \<open>=\<close>, \<open>+\<close> and \<open>%\<close>, which a query string gives a meaning to.
\<close>

definition plain :: "string \<Rightarrow> bool" where
  "plain s =
     list_all (\<lambda>c. c \<noteq> CHR ''&'' \<and> c \<noteq> CHR ''='' \<and> c \<noteq> CHR ''+'' \<and> c \<noteq> CHR ''%'') s"

fun render_query :: "(string \<times> string) list \<Rightarrow> string" where
  "render_query [] = []"
| "render_query [(n, v)] = n @ CHR ''='' # v"
| "render_query ((n, v) # p # ps) = n @ CHR ''='' # v @ CHR ''&'' # render_query (p # ps)"

definition empty_agent_query :: query where
  "empty_agent_query = \<lparr> query_periodMinutes = None, query_agent = Some [] \<rparr>"

definition five_minutes :: query where
  "five_minutes = \<lparr> query_periodMinutes = Some (Num 5), query_agent = None \<rparr>"

definition coder_row :: "int \<Rightarrow> int \<Rightarrow> stat_row" where
  "coder_row i n =
     \<lparr> row_id = i, ts = 1700000000000 + i, agent = ''coder'', in_bytes = n, est_tokens = n div 4,
       out_bytes = 10, upstream_status = 200, duration_ms = 7 \<rparr>"

section \<open>Reading an exported row back\<close>

text \<open>
  The reader of C8, which the program does not contain: a decimal integer, a timestamp in
  the 24 characters \<open>YYYY-MM-DDTHH:mm:ss.sssZ\<close> that \<open>Date.parse\<close> accepts, and a row
  of eight fields split at the commas.
\<close>

definition digit_val :: "char \<Rightarrow> nat option" where
  "digit_val c =
     (let n = (of_char c :: nat) in if 48 \<le> n \<and> n \<le> 57 then Some (n - 48) else None)"

fun parse_digits :: "string \<Rightarrow> nat \<Rightarrow> nat option" where
  "parse_digits [] acc = Some acc"
| "parse_digits (c # cs) acc =
     (case digit_val c of None \<Rightarrow> None | Some v \<Rightarrow> parse_digits cs (10 * acc + v))"

definition parse_nat :: "string \<Rightarrow> nat option" where
  "parse_nat s = (if s = [] then None else parse_digits s 0)"

definition parse_int :: "string \<Rightarrow> int option" where
  "parse_int s =
     (case s of
        [] \<Rightarrow> None
      | c # cs \<Rightarrow>
          if c = CHR ''-'' then map_option (\<lambda>n. - int n) (parse_nat cs)
          else map_option int (parse_nat s))"

definition MakeTime :: "nat \<Rightarrow> nat \<Rightarrow> nat \<Rightarrow> nat \<Rightarrow> nat \<Rightarrow> nat \<Rightarrow> nat \<Rightarrow> int" where
  "MakeTime y mo d h mi s ms =
     (DayFromYear (int y) + MonthStart (InLeapYear (int y)) (mo - 1) + int d - 1) * 86400000
     + int h * 3600000 + int mi * 60000 + int s * 1000 + int ms"

definition Date_parse :: "string \<Rightarrow> int option" where
  "Date_parse s =
     (if length s = 24 \<and> s ! 4 = CHR ''-'' \<and> s ! 7 = CHR ''-'' \<and> s ! 10 = CHR ''T''
         \<and> s ! 13 = CHR '':'' \<and> s ! 16 = CHR '':'' \<and> s ! 19 = CHR ''.'' \<and> s ! 23 = CHR ''Z''
      then
        (case (parse_nat (take 4 s), parse_nat (take 2 (drop 5 s)), parse_nat (take 2 (drop 8 s)),
               parse_nat (take 2 (drop 11 s)), parse_nat (take 2 (drop 14 s)),
               parse_nat (take 2 (drop 17 s)), parse_nat (take 3 (drop 20 s))) of
           (Some y, Some mo, Some d, Some h, Some mi, Some sec, Some ms) \<Rightarrow>
             if 1 \<le> mo \<and> mo \<le> 12 \<and> 1 \<le> d then Some (MakeTime y mo d h mi sec ms) else None
         | _ \<Rightarrow> None)
      else None)"

definition parse_csv_row :: "string \<Rightarrow> stat_row option" where
  "parse_csv_row line =
     (if line = [] \<or> last line \<noteq> CHR 0x0A then None
      else
        (case split_on CHR '','' (butlast line) of
           [i, t, a, ib, et, ob, us, dm] \<Rightarrow>
             (case (parse_int i, Date_parse t, parse_int ib, parse_int et, parse_int ob,
                    parse_int us, parse_int dm) of
                (Some i', Some t', Some ib', Some et', Some ob', Some us', Some dm') \<Rightarrow>
                  Some \<lparr> row_id = i', ts = t', agent = a, in_bytes = ib', est_tokens = et',
                         out_bytes = ob', upstream_status = us', duration_ms = dm' \<rparr>
              | _ \<Rightarrow> None)
         | _ \<Rightarrow> None))"

text \<open>
  The records the round trip is stated for: an agent without comma or line break, as the
  three tags are, and a timestamp in the years 0 to 9999, which \<open>toISOString\<close> writes in
  four digits.
\<close>

definition exportable :: "stat_row \<Rightarrow> bool" where
  "exportable r =
     (CHR '','' \<notin> set (agent r) \<and> CHR 0x0A \<notin> set (agent r)
      \<and> - 62167219200000 \<le> ts r \<and> ts r < 253402300800000)"

section \<open>Properties of the classifier\<close>

lemma indexOf_append_fresh:
  "c \<notin> set p \<Longrightarrow> indexOf (p @ c # q) c = Some (length p)"
  by (induction p) auto

lemma indexOf_fresh: "c \<notin> set p \<Longrightarrow> indexOf p c = None"
  by (induction p) auto

lemma classify_agent_query:
  "CHR ''?'' \<notin> set p \<Longrightarrow> classify_agent (p @ CHR ''?'' # q) = classify_agent (CHR ''?'' # q)"
  by (simp add: classify_agent_def indexOf_append_fresh)

lemma classify_agent_no_query: "CHR ''?'' \<notin> set p \<Longrightarrow> classify_agent p = ''manager''"
  by (simp add: classify_agent_def indexOf_fresh)

lemma classify_agent_in_tags: "classify_agent u \<in> agent_tags"
  by (auto simp: classify_agent_def agent_tags_def Let_def split: option.splits)

lemma classify_agent_cases:
  "classify_agent u =
     (case indexOf u CHR ''?'' of
        None \<Rightarrow> ''manager''
      | Some q \<Rightarrow>
          (let a = toLowerCase (case params_get (URLSearchParams (drop q u)) ''agent'' of
                                  None \<Rightarrow> [] | Some v \<Rightarrow> v)
           in if a \<in> agent_tags then a else ''manager''))"
  by (auto simp: classify_agent_def agent_tags_def Let_def split: option.splits)

lemma classify_examples:
  "classify_agent ''?agent=CODER'' = ''coder''"
  "classify_agent ''?agent=coder'' = ''coder''"
  "classify_agent ''?agent=coder&x=1'' = ''coder''"
  "classify_agent ''?agent=unknown'' = ''manager''"
  by code_simp+

text \<open>
  Targets whose \<open>agent\<close> parameter is absent, not the first parameter, repeated, written
  with escapes or in another letter case, and query strings that hold no pair at all.
\<close>

lemma classify_more_examples:
  "classify_agent ''?x=coder'' = ''manager''"
  "classify_agent ''?x=1&agent=coder'' = ''coder''"
  "classify_agent ''?agent=co%64er'' = ''coder''"
  "classify_agent ''?%61gent=TESTER'' = ''tester''"
  "classify_agent ''?agent=c%6Fder'' = ''coder''"
  "classify_agent ''?agent=c%6fder'' = ''coder''"
  "classify_agent ''?agent=co%6Ger'' = ''manager''"
  "classify_agent ''?AGENT=coder'' = ''manager''"
  "classify_agent ''?agent=unknown&agent=coder'' = ''manager''"
  "classify_agent ''?agent=Tester&agent=coder'' = ''tester''"
  "classify_agent ''?&&==&agent'' = ''manager''"
  "classify_agent ''?b?agent=coder'' = ''manager''"
  "classify_agent ''?agent='' = ''manager''"
  "classify_agent ''?agent=Manager'' = ''manager''"
  by code_simp+

lemma split_on_last: "d \<notin> set a \<Longrightarrow> split_on d a = [a]"
  by (induction a) auto

lemma split_on_field: "d \<notin> set a \<Longrightarrow> split_on d (a @ d # rest) = a # split_on d rest"
  by (induction a) auto

lemma percent_decode_plain: "CHR ''%'' \<notin> set s \<Longrightarrow> percent_decode s = s"
  by (induction s rule: percent_decode.induct) auto

lemma plus_to_space_plain: "CHR ''+'' \<notin> set s \<Longrightarrow> plus_to_space s = s"
  by (induction s) (auto simp: plus_to_space_def)

lemma plain_set:
  "plain s \<Longrightarrow>
   CHR ''&'' \<notin> set s \<and> CHR ''='' \<notin> set s \<and> CHR ''+'' \<notin> set s \<and> CHR ''%'' \<notin> set s"
  by (auto simp: plain_def list_all_iff)

lemma parse_pair_render: "plain n \<Longrightarrow> plain v \<Longrightarrow> parse_pair (n @ CHR ''='' # v) = (n, v)"
  by (simp add: parse_pair_def split_pair_def indexOf_append_fresh plain_set
        percent_decode_plain plus_to_space_plain)

lemma pieces_render:
  "list_all (\<lambda>(n, v). plain n \<and> plain v) pairs \<Longrightarrow>
   filter (\<lambda>p. p \<noteq> []) (split_on CHR ''&'' (render_query pairs))
     = map (\<lambda>(n, v). n @ CHR ''='' # v) pairs"
proof (induction pairs rule: render_query.induct)
  case 1
  show ?case by simp
next
  case (2 n v)
  then have "CHR ''&'' \<notin> set (n @ CHR ''='' # v)" by (simp add: plain_set)
  then have "split_on CHR ''&'' (n @ CHR ''='' # v) = [n @ CHR ''='' # v]"
    by (rule split_on_last)
  then show ?case by (simp only: render_query.simps) simp
next
  case (3 n v p ps)
  then have a: "CHR ''&'' \<notin> set (n @ CHR ''='' # v)" by (simp add: plain_set)
  have "render_query ((n, v) # p # ps) = (n @ CHR ''='' # v) @ CHR ''&'' # render_query (p # ps)"
    by simp
  then have "split_on CHR ''&'' (render_query ((n, v) # p # ps))
               = (n @ CHR ''='' # v) # split_on CHR ''&'' (render_query (p # ps))"
    by (simp only: split_on_field[OF a])
  then show ?case using 3 by simp
qed

text \<open>Parsing the query string written from plain pairs gives the pairs back.\<close>

lemma URLSearchParams_render:
  assumes "list_all (\<lambda>(n, v). plain n \<and> plain v) pairs"
  shows "URLSearchParams (CHR ''?'' # render_query pairs) = pairs"
proof -
  have "map parse_pair (map (\<lambda>(n, v). n @ CHR ''='' # v) pairs) = pairs"
    using assms by (induction pairs) (auto simp: parse_pair_render)
  then show ?thesis by (simp add: URLSearchParams_def pieces_render[OF assms])
qed

lemma params_get_map_of: "params_get ps name = map_of ps name"
  by (induction ps) auto

lemma classify_agent_pairs:
  assumes "CHR ''?'' \<notin> set p" and "list_all (\<lambda>(n, v). plain n \<and> plain v) pairs"
  shows "classify_agent (p @ CHR ''?'' # render_query pairs)
           = (case map_of pairs ''agent'' of
                None \<Rightarrow> ''manager''
              | Some v \<Rightarrow> if toLowerCase v \<in> agent_tags then toLowerCase v else ''manager'')"
proof -
  have "classify_agent (p @ CHR ''?'' # render_query pairs)
          = classify_agent (CHR ''?'' # render_query pairs)"
    by (rule classify_agent_query[OF assms(1)])
  also have "\<dots> = (case map_of pairs ''agent'' of
                None \<Rightarrow> ''manager''
              | Some v \<Rightarrow> if toLowerCase v \<in> agent_tags then toLowerCase v else ''manager'')"
    by (auto simp: classify_agent_def URLSearchParams_render[OF assms(2)] params_get_map_of
          agent_tags_def toLowerCase_def split: option.splits)
  finally show ?thesis .
qed

text \<open>
  C4. The classifier is a total function of the request target into the three tags. The
  parameters of the query string are looked up by name: when the query string carries the
  pairs \<open>pairs\<close>, the value of the first pair named \<open>agent\<close> is lower-cased and returned
  when it is one of \<open>manager\<close>, \<open>coder\<close>, \<open>tester\<close>, and everything else gives
  \<open>manager\<close>: another value, no pair of that name, a name in another letter case, a
  query string that holds no pair, a target without a query string. On any path \<open>p\<close>,
  \<open>?agent=CODER\<close>, \<open>?agent=coder\<close> and \<open>?agent=coder&x=1\<close> give \<open>coder\<close>, as do
  \<open>?x=1&agent=coder\<close> and the escaped \<open>?agent=co%64er\<close>, while \<open>?agent=unknown\<close>,
  \<open>?x=coder\<close> and no query string give \<open>manager\<close>.
\<close>

theorem classify_agent_total:
  assumes "CHR ''?'' \<notin> set p"
  shows "classify_agent u \<in> agent_tags
       \<and> classify_agent u =
           (case indexOf u CHR ''?'' of
              None \<Rightarrow> ''manager''
            | Some q \<Rightarrow>
                (let a = toLowerCase
                           (case params_get (URLSearchParams (drop q u)) ''agent'' of
                              None \<Rightarrow> [] | Some v \<Rightarrow> v)
                 in if a \<in> agent_tags then a else ''manager''))
       \<and> (list_all (\<lambda>(n, v). plain n \<and> plain v) pairs
            \<longrightarrow> classify_agent (p @ CHR ''?'' # render_query pairs)
                  = (case map_of pairs ''agent'' of
                       None \<Rightarrow> ''manager''
                     | Some v \<Rightarrow>
                         if toLowerCase v \<in> agent_tags then toLowerCase v else ''manager''))
       \<and> classify_agent (p @ ''?agent=CODER'') = ''coder''
       \<and> classify_agent (p @ ''?agent=coder'') = ''coder''
       \<and> classify_agent (p @ ''?agent=coder&x=1'') = ''coder''
       \<and> classify_agent (p @ ''?agent=unknown'') = ''manager''
       \<and> classify_agent p = ''manager''
       \<and> classify_agent (p @ ''?x=coder'') = ''manager''
       \<and> classify_agent (p @ ''?x=1&agent=coder'') = ''coder''
       \<and> classify_agent (p @ ''?agent=co%64er'') = ''coder''
       \<and> classify_agent (p @ ''?%61gent=TESTER'') = ''tester''
       \<and> classify_agent (p @ ''?agent=c%6Fder'') = ''coder''
       \<and> classify_agent (p @ ''?agent=c%6fder'') = ''coder''
       \<and> classify_agent (p @ ''?agent=co%6Ger'') = ''manager''
       \<and> classify_agent (p @ ''?AGENT=coder'') = ''manager''
       \<and> classify_agent (p @ ''?agent=unknown&agent=coder'') = ''manager''
       \<and> classify_agent (p @ ''?agent=Tester&agent=coder'') = ''tester''
       \<and> classify_agent (p @ ''?&&==&agent'') = ''manager''
       \<and> classify_agent (p @ ''?b?agent=coder'') = ''manager''
       \<and> classify_agent (p @ ''?agent='') = ''manager''
       \<and> classify_agent (p @ ''?agent=Manager'') = ''manager''"
proof -
  have q: "classify_agent (p @ CHR ''?'' # s) = classify_agent (CHR ''?'' # s)" for s
    by (rule classify_agent_query[OF assms])
  have "classify_agent u \<in> agent_tags" by (rule classify_agent_in_tags)
  moreover have "list_all (\<lambda>(n, v). plain n \<and> plain v) pairs
            \<longrightarrow> classify_agent (p @ CHR ''?'' # render_query pairs)
                  = (case map_of pairs ''agent'' of
                       None \<Rightarrow> ''manager''
                     | Some v \<Rightarrow>
                         if toLowerCase v \<in> agent_tags then toLowerCase v else ''manager'')"
    using classify_agent_pairs[OF assms] by blast
  moreover have "classify_agent (p @ ''?agent=CODER'') = ''coder''"
    "classify_agent (p @ ''?agent=coder'') = ''coder''"
    "classify_agent (p @ ''?agent=coder&x=1'') = ''coder''"
    "classify_agent (p @ ''?agent=unknown'') = ''manager''"
    using q classify_examples by simp_all
  moreover have "classify_agent p = ''manager''"
    by (rule classify_agent_no_query[OF assms])
  moreover have "classify_agent (p @ ''?x=coder'') = ''manager''"
    "classify_agent (p @ ''?x=1&agent=coder'') = ''coder''"
    "classify_agent (p @ ''?agent=co%64er'') = ''coder''"
    "classify_agent (p @ ''?%61gent=TESTER'') = ''tester''"
    "classify_agent (p @ ''?agent=c%6Fder'') = ''coder''"
    "classify_agent (p @ ''?agent=c%6fder'') = ''coder''"
    "classify_agent (p @ ''?agent=co%6Ger'') = ''manager''"
    "classify_agent (p @ ''?AGENT=coder'') = ''manager''"
    "classify_agent (p @ ''?agent=unknown&agent=coder'') = ''manager''"
    "classify_agent (p @ ''?agent=Tester&agent=coder'') = ''tester''"
    "classify_agent (p @ ''?&&==&agent'') = ''manager''"
    "classify_agent (p @ ''?b?agent=coder'') = ''manager''"
    "classify_agent (p @ ''?agent='') = ''manager''"
    "classify_agent (p @ ''?agent=Manager'') = ''manager''"
    using q classify_more_examples by simp_all
  ultimately show ?thesis using classify_agent_cases[of u] by (simp only: simp_thms)
qed

theorem classify_agent_total_witness:
  "CHR ''?'' \<notin> set ''/v1/chat/completions''
   \<and> list_all (\<lambda>(n, v). plain n \<and> plain v) [(''x'', ''coder''), (''agent'', ''TESTER'')]
   \<and> render_query [(''x'', ''coder''), (''agent'', ''TESTER'')] = ''x=coder&agent=TESTER''
   \<and> classify_agent ''/v1/chat/completions?x=coder&agent=TESTER'' = ''tester''
   \<and> classify_agent ''/v1/chat/completions?x=coder'' = ''manager''
   \<and> classify_agent ''/v1/chat/completions?agent=CODER'' = ''coder''
   \<and> classify_agent ''/v1/chat/completions?agent=unknown'' = ''manager''
   \<and> classify_agent ''/v1/chat/completions?agent=Tester&agent=coder'' = ''tester''"
proof -
  have h: "CHR ''?'' \<notin> set ''/v1/chat/completions''" by simp
  have pl: "list_all (\<lambda>(n, v). plain n \<and> plain v) [(''x'', ''coder''), (''agent'', ''TESTER'')]"
    by (simp add: plain_def)
  have r: "render_query [(''x'', ''coder''), (''agent'', ''TESTER'')] = ''x=coder&agent=TESTER''"
    by simp
  have t: "toLowerCase ''TESTER'' = ''tester''" by code_simp
  have m: "map_of [(''x'', ''coder''), (''agent'', ''TESTER'')] ''agent'' = Some ''TESTER''"
    by simp
  note c = classify_agent_total[OF h, of "''/''" "[(''x'', ''coder''), (''agent'', ''TESTER'')]"]
  from c pl have "classify_agent (''/v1/chat/completions'' @ CHR ''?''
                     # render_query [(''x'', ''coder''), (''agent'', ''TESTER'')]) = ''tester''"
    by (simp only: m t option.case agent_tags_def) simp
  then have "classify_agent ''/v1/chat/completions?x=coder&agent=TESTER'' = ''tester''"
    by (simp only: r) simp
  moreover from c have "classify_agent ''/v1/chat/completions?x=coder'' = ''manager''"
    "classify_agent ''/v1/chat/completions?agent=CODER'' = ''coder''"
    "classify_agent ''/v1/chat/completions?agent=unknown'' = ''manager''"
    "classify_agent ''/v1/chat/completions?agent=Tester&agent=coder'' = ''tester''"
    by simp_all
  ultimately show ?thesis using h pl r by (simp only: simp_thms)
qed

section \<open>Properties of the forwarding engine\<close>

lemma step_const:
  "inBytes (step cfg st ev) = inBytes st"
  "estTokens (step cfg st ev) = estTokens st"
  "st_agent (step cfg st ev) = st_agent st"
  "startUpstream (step cfg st ev) = startUpstream st"
  "up_written (step cfg st ev) = up_written st"
  by (cases ev; cases "phase st";
      simp add: on_error_def on_end_def on_response_def Let_def split: option.splits)+

lemma run_const:
  "inBytes (foldl (step cfg) st evs) = inBytes st"
  "estTokens (foldl (step cfg) st evs) = estTokens st"
  "st_agent (foldl (step cfg) st evs) = st_agent st"
  "startUpstream (foldl (step cfg) st evs) = startUpstream st"
  "up_written (foldl (step cfg) st evs) = up_written st"
  by (induction evs arbitrary: st; simp add: step_const)+

lemma step_store_inv: "store_inv d0 st \<Longrightarrow> store_inv d0 (step cfg st ev)"
  by (cases ev; cases "phase st")
     (auto simp: store_inv_def telemetry_of_def on_error_def on_end_def on_response_def
                 insertStat_def Let_def split: option.splits if_splits)

lemma run_store_inv: "store_inv d0 st \<Longrightarrow> store_inv d0 (foldl (step cfg) st evs)"
  by (induction evs arbitrary: st) (simp_all add: step_store_inv)

lemma start_store_inv: "store_inv d (proxyHandler_start cfg d now req)"
  by (simp add: store_inv_def proxyHandler_start_def Let_def)

lemma proxyHandler_store_inv: "store_inv d (proxyHandler cfg d now req evs)"
  unfolding proxyHandler_def by (rule run_store_inv[OF start_store_inv])

lemma run_absorbing:
  "phase st = Completed \<or> phase st = Failed \<Longrightarrow> foldl (step cfg) st evs = st"
proof (induction evs arbitrary: st)
  case Nil
  then show ?case by simp
next
  case (Cons ev evs)
  have "step cfg st ev = st" using Cons.prems by (cases ev) auto
  then show ?case using Cons by simp
qed

lemma start_fields:
  "inBytes (proxyHandler_start cfg d now req) = length (case rawBody req of Some s \<Rightarrow> s | None \<Rightarrow> [])"
  "estTokens (proxyHandler_start cfg d now req) = length (case rawBody req of Some s \<Rightarrow> s | None \<Rightarrow> []) div 4"
  "st_agent (proxyHandler_start cfg d now req) = classify_agent (originalUrl req)"
  "up_written (proxyHandler_start cfg d now req) = (case rawBody req of Some s \<Rightarrow> s | None \<Rightarrow> [])"
  "startUpstream (proxyHandler_start cfg d now req) = now"
  "phase (proxyHandler_start cfg d now req) = AwaitingResponse"
  "res_headersSent (proxyHandler_start cfg d now req) = False"
  "db (proxyHandler_start cfg d now req) = d"
  "res_body (proxyHandler_start cfg d now req) = []"
  "outBytes (proxyHandler_start cfg d now req) = 0"
  by (simp_all add: proxyHandler_start_def Let_def split: option.splits)

lemma proxyHandler_fields:
  "inBytes (proxyHandler cfg d now req evs) = length (case rawBody req of Some s \<Rightarrow> s | None \<Rightarrow> [])"
  "estTokens (proxyHandler cfg d now req evs) = length (case rawBody req of Some s \<Rightarrow> s | None \<Rightarrow> []) div 4"
  "st_agent (proxyHandler cfg d now req evs) = classify_agent (originalUrl req)"
  "up_written (proxyHandler cfg d now req evs) = (case rawBody req of Some s \<Rightarrow> s | None \<Rightarrow> [])"
  by (simp_all add: proxyHandler_def run_const start_fields)

lemma appended_length:
  "length (appended (Some rows) (db (proxyHandler cfg (Some rows) now req evs)))
     = (if phase (proxyHandler cfg (Some rows) now req evs) = Completed
           \<and> \<not> insert_failed (proxyHandler cfg (Some rows) now req evs) then 1 else 0)"
  using proxyHandler_store_inv[of "Some rows" cfg now req evs]
  by (auto simp: store_inv_def appended_def split: option.splits if_splits)

lemma data_run:
  "phase st = Streaming sc \<Longrightarrow>
   foldl (step cfg) st (map UpData cs) =
     st\<lparr>outBytes := outBytes st + sum_list (map length cs),
        res_body := res_body st @ map Raw cs\<rparr>"
  by (induction cs arbitrary: st) (simp_all add: add.assoc)

lemma relayed_fields:
  "phase (relayed cfg d now req sc h cs) = Streaming sc"
  "res_headersSent (relayed cfg d now req sc h cs) = True"
  "res_statusCode (relayed cfg d now req sc h cs) = (case sc of None \<Rightarrow> 502 | Some s \<Rightarrow> (if s = 0 then 502 else s))"
  "res_body (relayed cfg d now req sc h cs) = map Raw cs"
  "outBytes (relayed cfg d now req sc h cs) = sum_list (map length cs)"
  "db (relayed cfg d now req sc h cs) = d"
  "startUpstream (relayed cfg d now req sc h cs) = now"
  "st_agent (relayed cfg d now req sc h cs) = classify_agent (originalUrl req)"
  "inBytes (relayed cfg d now req sc h cs) = length (case rawBody req of Some s \<Rightarrow> s | None \<Rightarrow> [])"
  "estTokens (relayed cfg d now req sc h cs) = length (case rawBody req of Some s \<Rightarrow> s | None \<Rightarrow> []) div 4"
  by (simp_all add: relayed_def proxyHandler_def start_fields on_response_def data_run)

lemma proxyHandler_append:
  "proxyHandler cfg d now req (evs @ evs') = foldl (step cfg) (proxyHandler cfg d now req evs) evs'"
  by (simp add: proxyHandler_def)

lemma after_relay:
  "proxyHandler cfg d now req (UpResponse sc h # map UpData cs @ ev # evs)
     = foldl (step cfg) (step cfg (relayed cfg d now req sc h cs) ev) evs"
  using proxyHandler_append[of cfg d now req "UpResponse sc h # map UpData cs" "ev # evs"]
  by (simp add: relayed_def)

lemma completed_db:
  "db (proxyHandler cfg (Some rows) now req (UpResponse sc h # map UpData cs @ UpEnd t1 t2 True # evs))
   = Some (rows @ [\<lparr> row_id = next_id rows, ts = t2,
          agent = classify_agent (originalUrl req),
          in_bytes = int (length (case rawBody req of Some s \<Rightarrow> s | None \<Rightarrow> [])),
          est_tokens = int (length (case rawBody req of Some s \<Rightarrow> s | None \<Rightarrow> []) div 4),
          out_bytes = int (sum_list (map length cs)),
          upstream_status = (case sc of Some s \<Rightarrow> int s | None \<Rightarrow> 0),
          duration_ms = t1 - now \<rparr>])"
proof -
  let ?st = "step cfg (relayed cfg (Some rows) now req sc h cs) (UpEnd t1 t2 True)"
  have p: "phase ?st = Completed" by (simp add: relayed_fields on_end_def Let_def)
  have "db ?st = Some (rows @ [\<lparr> row_id = next_id rows, ts = t2,
          agent = classify_agent (originalUrl req),
          in_bytes = int (length (case rawBody req of Some s \<Rightarrow> s | None \<Rightarrow> [])),
          est_tokens = int (length (case rawBody req of Some s \<Rightarrow> s | None \<Rightarrow> []) div 4),
          out_bytes = int (sum_list (map length cs)),
          upstream_status = (case sc of Some s \<Rightarrow> int s | None \<Rightarrow> 0),
          duration_ms = t1 - now \<rparr>])"
    by (simp add: relayed_fields on_end_def Let_def insertStat_def)
  moreover have "foldl (step cfg) ?st evs = ?st"
    by (rule run_absorbing) (simp only: p, simp)
  ultimately show ?thesis by (simp only: after_relay)
qed

lemma failed_first:
  assumes "ev = UpTimeout \<or> ev = UpError e"
  shows "proxyHandler cfg d now req (ev # evs) = step cfg (proxyHandler_start cfg d now req) ev"
    and "phase (step cfg (proxyHandler_start cfg d now req) ev) = Failed"
proof -
  let ?st = "step cfg (proxyHandler_start cfg d now req) ev"
  show p: "phase ?st = Failed"
    using assms by (auto simp: start_fields on_error_def Let_def)
  have "foldl (step cfg) ?st evs = ?st"
    by (rule run_absorbing) (simp only: p, simp)
  then show "proxyHandler cfg d now req (ev # evs) = ?st"
    by (simp add: proxyHandler_def)
qed

lemma failed_mid:
  assumes "ev = UpTimeout \<or> ev = UpError e"
  shows "proxyHandler cfg d now req (UpResponse sc h # map UpData cs @ ev # evs)
           = step cfg (relayed cfg d now req sc h cs) ev"
    and "step cfg (relayed cfg d now req sc h cs) ev
           = (relayed cfg d now req sc h cs)
               \<lparr>up_destroyed := (ev = UpTimeout \<or> up_destroyed (relayed cfg d now req sc h cs)),
                phase := Failed, uncaught := Some ''ERR_HTTP_HEADERS_SENT''\<rparr>"
proof -
  let ?st = "step cfg (relayed cfg d now req sc h cs) ev"
  have p: "phase ?st = Failed"
    using assms by (auto simp: relayed_fields on_error_def Let_def)
  have "foldl (step cfg) ?st evs = ?st"
    by (rule run_absorbing) (simp only: p, simp)
  then show "proxyHandler cfg d now req (UpResponse sc h # map UpData cs @ ev # evs) = ?st"
    by (simp only: after_relay)
  show "?st = (relayed cfg d now req sc h cs)
               \<lparr>up_destroyed := (ev = UpTimeout \<or> up_destroyed (relayed cfg d now req sc h cs)),
                phase := Failed, uncaught := Some ''ERR_HTTP_HEADERS_SENT''\<rparr>"
    using assms by (auto simp: relayed_fields on_error_def Let_def)
qed

lemma failed_mid_fields:
  assumes "ev = UpTimeout \<or> ev = UpError e"
  shows "db (proxyHandler cfg d now req (UpResponse sc h # map UpData cs @ ev # evs)) = d"
    and "res_statusCode (proxyHandler cfg d now req (UpResponse sc h # map UpData cs @ ev # evs))
           = (case sc of None \<Rightarrow> 502 | Some s \<Rightarrow> (if s = 0 then 502 else s))"
    and "res_body (proxyHandler cfg d now req (UpResponse sc h # map UpData cs @ ev # evs))
           = map Raw cs"
    and "uncaught (proxyHandler cfg d now req (UpResponse sc h # map UpData cs @ ev # evs))
           = Some ''ERR_HTTP_HEADERS_SENT''"
  by (simp_all only: failed_mid[OF assms])
     (simp_all add: relayed_fields)

lemma failed_first_fields:
  assumes "ev = UpTimeout \<or> ev = UpError e"
  shows "db (proxyHandler cfg d now req (ev # evs)) = d"
    and "res_statusCode (proxyHandler cfg d now req (ev # evs)) = 502"
    and "res_finished (proxyHandler cfg d now req (ev # evs))"
    and "res_body (proxyHandler cfg d now req (ev # evs))
           = [JsonText (JObj [(''error'', JStr ''Bad Gateway''),
                (''detail'', JStr (error_detail (if ev = UpTimeout then timeout_error cfg else e)))])]"
    and "up_destroyed (proxyHandler cfg d now req (ev # evs)) = (ev = UpTimeout)"
  using assms
  by (auto simp only: failed_first(1)[OF assms])
     (auto simp add: start_fields on_error_def Let_def proxyHandler_start_def)

lemma appended_rows:
  "list_all (telemetry_of (proxyHandler cfg d now req evs))
     (appended d (db (proxyHandler cfg d now req evs)))"
  using proxyHandler_store_inv[of d cfg now req evs]
  by (auto simp: store_inv_def appended_def split: option.splits if_splits)

text \<open>
  C1, as the code has it. For every request and every course of the upstream call, at most
  one telemetry record is appended. With persistence enabled exactly one is appended when
  the relayed response stream reaches its end and the insert does not throw; its
  \<open>upstream_status\<close> is the status code of the response, 0 only when the response
  carried none. When the upstream call fails by a connection error or a timeout, before a
  response or while one is being relayed, no record is appended.
\<close>

theorem telemetry_once:
  "length (appended (Some rows) (db (proxyHandler cfg (Some rows) now req evs))) \<le> 1
   \<and> (length (appended (Some rows) (db (proxyHandler cfg (Some rows) now req evs))) = 1)
       = (phase (proxyHandler cfg (Some rows) now req evs) = Completed
          \<and> \<not> insert_failed (proxyHandler cfg (Some rows) now req evs))
   \<and> db (proxyHandler cfg (Some rows) now req
            (UpResponse sc h # map UpData cs @ UpEnd t1 t2 True # evs))
       = Some (rows @ [\<lparr> row_id = next_id rows, ts = t2,
            agent = classify_agent (originalUrl req),
            in_bytes = int (length (case rawBody req of Some s \<Rightarrow> s | None \<Rightarrow> [])),
            est_tokens = int (length (case rawBody req of Some s \<Rightarrow> s | None \<Rightarrow> []) div 4),
            out_bytes = int (sum_list (map length cs)),
            upstream_status = (case sc of Some s \<Rightarrow> int s | None \<Rightarrow> 0),
            duration_ms = t1 - now \<rparr>])
   \<and> db (proxyHandler cfg (Some rows) now req (UpError e # evs)) = Some rows
   \<and> db (proxyHandler cfg (Some rows) now req (UpTimeout # evs)) = Some rows
   \<and> db (proxyHandler cfg (Some rows) now req (UpResponse sc h # map UpData cs @ UpError e # evs))
       = Some rows
   \<and> db (proxyHandler cfg (Some rows) now req (UpResponse sc h # map UpData cs @ UpTimeout # evs))
       = Some rows"
proof -
  have 1: "db (proxyHandler cfg (Some rows) now req (UpError e # evs)) = Some rows"
    by (rule failed_first_fields(1)[of "UpError e" e]) simp
  have 2: "db (proxyHandler cfg (Some rows) now req (UpTimeout # evs)) = Some rows"
    by (rule failed_first_fields(1)[of UpTimeout e]) simp
  have 3: "db (proxyHandler cfg (Some rows) now req
                (UpResponse sc h # map UpData cs @ UpError e # evs)) = Some rows"
    by (rule failed_mid_fields(1)[of "UpError e" e]) simp
  have 4: "db (proxyHandler cfg (Some rows) now req
                (UpResponse sc h # map UpData cs @ UpTimeout # evs)) = Some rows"
    by (rule failed_mid_fields(1)[of UpTimeout e]) simp
  show ?thesis
    using 1 2 3 4 completed_db[of cfg rows now req sc h cs t1 t2 evs]
    by (simp add: appended_length)
qed

text \<open>
  C1 as stated fails: a connection that is refused, or a timeout before any response,
  leaves the store as it was, where the claim has one record with \<open>upstreamStatus = 0\<close>.
\<close>

theorem telemetry_failure_counterexample:
  "appended (Some []) (db (proxyHandler default_config (Some []) 1000 example_request [UpError refused])) = []
   \<and> appended (Some []) (db (proxyHandler default_config (Some []) 1000 example_request [UpTimeout])) = []
   \<and> res_statusCode (proxyHandler default_config (Some []) 1000 example_request [UpError refused]) = 502"
  by (simp add: appended_def proxyHandler_def proxyHandler_start_def default_config_def
        example_request_def refused_def on_error_def Let_def)

text \<open>
  C3. For every request and every course of the upstream call, the estimated tokens are
  the byte length of the body divided by four, rounded down, in the handler and in every
  record it appends; bodies of 0, 1, 2, 3, 4 and 400000 bytes give 0, 0, 0, 0, 1 and
  100000.
\<close>

theorem estimated_tokens_floor:
  "estTokens (proxyHandler cfg d now req evs) = inBytes (proxyHandler cfg d now req evs) div 4
   \<and> list_all (\<lambda>r. est_tokens r = in_bytes r div 4)
        (appended d (db (proxyHandler cfg d now req evs)))
   \<and> map (\<lambda>n. estTokens (proxyHandler cfg d now (req\<lparr>rawBody := Some (replicate n c)\<rparr>) evs))
        [0, 1, 2, 3, 4, 400000] = [0, 0, 0, 0, 1, 100000]"
proof -
  have a: "estTokens (proxyHandler cfg d now req evs)
             = inBytes (proxyHandler cfg d now req evs) div 4"
    by (simp add: proxyHandler_fields)
  have "list_all (\<lambda>r. est_tokens r = in_bytes r div 4)
          (appended d (db (proxyHandler cfg d now req evs)))"
    using appended_rows[of cfg d now req evs] a
    by (auto simp: list_all_iff telemetry_of_def zdiv_int)
  moreover have
    "map (\<lambda>n. estTokens (proxyHandler cfg d now (req\<lparr>rawBody := Some (replicate n c)\<rparr>) evs))
        [0, 1, 2, 3, 4, 400000] = [0, 0, 0, 0, 1, 100000]"
    by (simp add: proxyHandler_fields)
  ultimately show ?thesis using a by simp
qed



text \<open>Decoding a well-formed UTF-8 body and encoding it again gives the same bytes.\<close>

lemma toString_utf8_well_formed: "utf8_well_formed buf \<Longrightarrow> toString_utf8 buf = buf"
proof (induction "length buf" arbitrary: buf rule: less_induct)
  case less
  show ?case
  proof (cases buf)
    case Nil
    then show ?thesis by simp
  next
    case (Cons b bs)
    consider (one) "in_range b 0x00 0x7F"
      | (two) "\<not> in_range b 0x00 0x7F" "in_range b 0xC2 0xDF"
      | (three) "\<not> in_range b 0x00 0x7F" "\<not> in_range b 0xC2 0xDF" "in_range b 0xE0 0xEF"
      | (four) "\<not> in_range b 0x00 0x7F" "\<not> in_range b 0xC2 0xDF" "\<not> in_range b 0xE0 0xEF"
               "in_range b 0xF0 0xF4"
      | (bad) "\<not> in_range b 0x00 0x7F" "\<not> in_range b 0xC2 0xDF" "\<not> in_range b 0xE0 0xEF"
               "\<not> in_range b 0xF0 0xF4"
      by blast
    then show ?thesis
    proof cases
      case one
      then have "utf8_well_formed bs" using less.prems Cons by simp
      then have "toString_utf8 bs = bs" using less.hyps[of bs] Cons by simp
      then show ?thesis using one Cons by simp
    next
      case two
      then obtain b1 r1 where bs: "bs = b1 # r1" and c: "in_range b1 0x80 0xBF"
          and w: "utf8_well_formed r1"
        using less.prems Cons by (auto split: list.splits)
      have "toString_utf8 r1 = r1" using less.hyps[of r1] w Cons bs by simp
      then show ?thesis using two c Cons bs by simp
    next
      case three
      then obtain b1 b2 r2 where bs: "bs = b1 # b2 # r2"
          and c1: "in_range b1 (if b = CHR 0xE0 then 0xA0 else 0x80)
                                (if b = CHR 0xED then 0x9F else 0xBF)"
          and c2: "in_range b2 0x80 0xBF" and w: "utf8_well_formed r2"
        using less.prems Cons by (auto split: list.splits)
      have "toString_utf8 r2 = r2" using less.hyps[of r2] w Cons bs by simp
      then show ?thesis using three c1 c2 Cons bs by simp
    next
      case four
      then obtain b1 b2 b3 r3 where bs: "bs = b1 # b2 # b3 # r3"
          and c1: "in_range b1 (if b = CHR 0xF0 then 0x90 else 0x80)
                                (if b = CHR 0xF4 then 0x8F else 0xBF)"
          and c2: "in_range b2 0x80 0xBF" and c3: "in_range b3 0x80 0xBF"
          and w: "utf8_well_formed r3"
        using less.prems Cons by (auto split: list.splits)
      have "toString_utf8 r3 = r3" using less.hyps[of r3] w Cons bs by simp
      then show ?thesis using four c1 c2 c3 Cons bs by simp
    next
      case bad
      then show ?thesis using less.prems Cons by simp
    qed
  qed
qed

lemma forward_well_formed:
  assumes "utf8_well_formed buf"
  shows "up_written (proxyHandler cfg d now (req\<lparr>rawBody := Some (verify buf)\<rparr>) evs) = buf"
    and "inBytes (proxyHandler cfg d now (req\<lparr>rawBody := Some (verify buf)\<rparr>) evs) = length buf"
  using assms by (simp_all add: proxyHandler_fields verify_def toString_utf8_well_formed)

text \<open>
  C2 at two bodies that are not well-formed UTF-8, both of which the JSON parser accepts:
  the nine bytes of \<open>latin1_body\<close> reach the upstream as eleven bytes, the byte \<open>E9\<close>
  replaced by \<open>EF BF BD\<close>, and \<open>inBytes\<close> is 11; the eighteen bytes of
  \<open>utf16_body\<close> reach it as twenty, and \<open>inBytes\<close> is 20.
\<close>

theorem forward_latin1_body:
  "up_written (proxyHandler default_config None 1000
       (example_request\<lparr>rawBody := Some (verify latin1_body)\<rparr>) [])
     = ''{\"n\":\"'' @ [CHR 0xEF, CHR 0xBF, CHR 0xBD] @ ''\"}''
   \<and> up_written (proxyHandler default_config None 1000
       (example_request\<lparr>rawBody := Some (verify latin1_body)\<rparr>) []) \<noteq> latin1_body
   \<and> length latin1_body = 9
   \<and> inBytes (proxyHandler default_config None 1000
       (example_request\<lparr>rawBody := Some (verify latin1_body)\<rparr>) []) = 11
   \<and> up_written (proxyHandler default_config None 1000
       (example_request\<lparr>rawBody := Some (verify utf16_body)\<rparr>) []) \<noteq> utf16_body
   \<and> length utf16_body = 18
   \<and> inBytes (proxyHandler default_config None 1000
       (example_request\<lparr>rawBody := Some (verify utf16_body)\<rparr>) []) = 20"
  by (simp add: proxyHandler_fields verify_def latin1_body_def utf16_body_def in_range_def
        REPLACEMENT_def)

section \<open>Properties of the calendar\<close>

lemma year_up_post:
  "DayFromYear y0 \<le> d \<Longrightarrow>
   DayFromYear (year_up d y0) \<le> d \<and> d < DayFromYear (year_up d y0 + 1)"
proof (induction d y0 rule: year_up.induct)
  case (1 d y)
  show ?case
  proof (cases "DayFromYear (y + 1) \<le> d")
    case True
    then show ?thesis using "1.IH" by (subst (1 2) year_up.simps) simp
  next
    case False
    then show ?thesis using "1.prems" by (subst (1 2) year_up.simps) simp
  qed
qed

lemma year_down_post:
  "d < DayFromYear (y0 + 1) \<Longrightarrow>
   DayFromYear (year_down d y0) \<le> d \<and> d < DayFromYear (year_down d y0 + 1)"
proof (induction d y0 rule: year_down.induct)
  case (1 d y)
  show ?case
  proof (cases "d < DayFromYear y")
    case True
    then show ?thesis using "1.IH" by (subst (1 2) year_down.simps) simp
  next
    case False
    then show ?thesis using "1.prems" by (subst (1 2) year_down.simps) simp
  qed
qed

lemma DayFromYear_1970: "DayFromYear 1970 = 0"
  by (simp add: DayFromYear_def)

lemma YearFromDay_bounds:
  "DayFromYear (YearFromDay d) \<le> d" "d < DayFromYear (YearFromDay d + 1)"
proof -
  have "DayFromYear (YearFromDay d) \<le> d \<and> d < DayFromYear (YearFromDay d + 1)"
  proof (cases "0 \<le> d")
    case True
    then show ?thesis
      using year_up_post[of 1970 d] by (simp add: YearFromDay_def DayFromYear_1970)
  next
    case False
    then have "d < DayFromYear (1969 + 1)" by (simp add: DayFromYear_1970)
    then show ?thesis
      using year_down_post[of d 1969] False by (simp add: YearFromDay_def)
  qed
  then show "DayFromYear (YearFromDay d) \<le> d" "d < DayFromYear (YearFromDay d + 1)"
    by simp_all
qed

lemma DayFromYear_mono: "y \<le> z \<Longrightarrow> DayFromYear y \<le> DayFromYear z"
proof (induction z rule: int_ge_induct)
  case base
  then show ?case by simp
next
  case (step i)
  then show ?case using DayFromYear_less[of i] by simp
qed

lemma YearFromDay_unique:
  assumes "DayFromYear y \<le> d" and "d < DayFromYear (y + 1)"
  shows "YearFromDay d = y"
proof (rule ccontr)
  assume ne: "YearFromDay d \<noteq> y"
  show False
  proof (cases "YearFromDay d < y")
    case True
    then have "DayFromYear (YearFromDay d + 1) \<le> DayFromYear y"
      by (intro DayFromYear_mono) simp
    then show False using YearFromDay_bounds(2)[of d] assms(1) by simp
  next
    case False
    then have "DayFromYear (y + 1) \<le> DayFromYear (YearFromDay d)"
      using ne by (intro DayFromYear_mono) simp
    then show False using YearFromDay_bounds(1)[of d] assms(2) by simp
  qed
qed

section \<open>Properties of routing and reporting\<close>

lemma lower_paths:
  "norm_path ''/stats'' = ''/stats''"
  "norm_path ''/stats/export'' = ''/stats/export''"
  "toLowerCase ''/stats'' = ''/stats''"
  "toLowerCase ''/stats/export'' = ''/stats/export''"
  by code_simp+

lemma path_of_examples:
  "path_of ''/stats'' = ''/stats''"
  "path_of ''/stats/export'' = ''/stats/export''"
  "path_of ''/stats?periodMinutes=5'' = ''/stats''"
  "path_of ''/stats/export?periodMinutes=5'' = ''/stats/export''"
  "path_of ''/stats?agent=unknown'' = ''/stats''"
  by (simp_all add: path_of_def)

text \<open>No request reaches the two reporting handlers: the catch-all of line 245 is
  registered before them and answers every request the routes above it leave.\<close>

lemma reporting_unreachable:
  "dispatch (app_stack docs) rm path \<noteq> Some StatsH"
  "dispatch (app_stack docs) rm path \<noteq> Some StatsExportH"
  by (simp_all add: app_stack_def)

lemma dispatch_stats:
  "dispatch (app_stack docs) ''GET'' ''/stats'' = Some NotFoundH"
  "dispatch (app_stack docs) ''GET'' ''/stats/export'' = Some NotFoundH"
  by (simp_all add: app_stack_def lower_paths method_matches_def)

lemma app_stats_not_found:
  "path_of u = ''/stats'' \<or> path_of u = ''/stats/export'' \<Longrightarrow>
   app cfg srv now (get_request u q) evs
     = Response (res_json 404 (JObj [(''error'', JStr ''Not Found'')]))"
  by (auto simp: app_def get_request_def dispatch_stats)

text \<open>What the two handlers answer when persistence is disabled, were they called.\<close>

lemma stats_handler_disabled:
  "stats_handler None now q
     = res_json 200 (JObj [(''error'', JStr ''stats persistence disabled'')])"
  "stats_export_handler None now q
     = Inr (res_json 400 (JObj [(''error'', JStr ''stats persistence disabled'')]))"
  by (simp_all add: stats_handler_def stats_export_handler_def)

text \<open>
  C10 at \<open>GET /stats\<close> and \<open>GET /stats/export\<close> with persistence disabled: the
  application answers both with status 404 and the body \<open>{"error":"Not Found"}\<close>, where
  the claim has status 200 for the first and 400 for the second, each with the error
  \<open>stats persistence disabled\<close>.
\<close>

theorem stats_disabled_not_served:
  "app cfg (srv\<lparr>stats := None\<rparr>) now (get_request ''/stats'' q) evs
     = Response (res_json 404 (JObj [(''error'', JStr ''Not Found'')]))
   \<and> app cfg (srv\<lparr>stats := None\<rparr>) now (get_request ''/stats/export'' q) evs
     = Response (res_json 404 (JObj [(''error'', JStr ''Not Found'')]))
   \<and> status (res_json 404 (JObj [(''error'', JStr ''Not Found'')])) \<noteq> 200
   \<and> status (res_json 404 (JObj [(''error'', JStr ''Not Found'')])) \<noteq> 400"
  by (simp add: app_stats_not_found path_of_examples res_json_def)

section \<open>Evaluating the export on one record\<close>

lemma pad_examples:
  "pad 2 11 = ''11''" "pad 2 14 = ''14''" "pad 2 22 = ''22''" "pad 2 13 = ''13''"
  "pad 2 20 = ''20''" "pad 3 0 = ''000''" "year_string 2023 = ''2023''"
  by code_simp+

lemma toISOString_example: "toISOString 1700000000000 = Some ''2023-11-14T22:13:20.000Z''"
proof -
  have d: "(1700000000000::int) div 86400000 = 19675"
    "(1700000000000::int) mod 86400000 = 80000000"
    by simp_all
  have y: "YearFromDay 19675 = 2023"
    by (rule YearFromDay_unique) (simp_all add: DayFromYear_def)
  have dy: "DayFromYear 2023 = 19358" by (simp add: DayFromYear_def)
  have l: "InLeapYear 2023 = False" by (simp add: InLeapYear_def)
  have m: "MonthFromDay 317 False = 10" by (simp add: MonthFromDay_def)
  have s: "MonthStart False 10 = 304" by (simp add: MonthStart_def)
  have t: "nat 80000000 div 3600000 = 22" "nat 80000000 div 60000 mod 60 = 13"
    "nat 80000000 div 1000 mod 60 = 20" "nat 80000000 mod 1000 = 0" by simp_all
  have r: "\<not> \<bar>1700000000000::int\<bar> > 8640000000000000" by simp
  show ?thesis
    unfolding toISOString_def Let_def d y dy l
    by (simp only: r if_False) (simp add: m s t pad_examples)
qed

lemma csv_row_example:
  "csv_row manager_row
     = Some (''1,2023-11-14T22:13:20.000Z,manager,100,25,40,200,12'' @ [CHR 0x0A])"
proof -
  have "show_int 1 = ''1''" "show_int 100 = ''100''" "show_int 25 = ''25''"
    "show_int 40 = ''40''" "show_int 200 = ''200''" "show_int 12 = ''12''"
    by code_simp+
  then show ?thesis
    by (simp add: csv_row_def manager_row_def toISOString_example)
qed

section \<open>Properties of the reporting handlers\<close>

lemma ts_ge_since:
  "positive m \<Longrightarrow> ts_ge t (since_of now m) = covers now m t"
  by (cases m) (simp_all add: algebra_simps)

lemma not_positive_covers: "\<not> positive m \<Longrightarrow> covers now m t"
  by (cases m) simp_all

lemma stats_query_window:
  "stats_query rows now q =
     group_by_agent (filter (\<lambda>r. covers now (mins_of q) (ts r)
                                \<and> (agent_of q = [] \<or> agent r = agent_of q)) rows)"
  by (auto simp: stats_query_def Let_def selectSummaryByAgentSince_def selectSummarySince_def
        selectSummaryByAgentAll_def selectSummaryAll_def ts_ge_since not_positive_covers
      intro!: arg_cong[where f = group_by_agent] filter_cong)

lemma stats_rows_window:
  "stats_rows rows now q =
     (case group_by_agent (filter (\<lambda>r. covers now (mins_of q) (ts r)
                                      \<and> (agent_of q = [] \<or> agent r = agent_of q)) rows) of
        Inr rs \<Rightarrow> rs
      | Inl e \<Rightarrow> [])"
  by (simp add: stats_rows_def stats_query_window)

lemma export_rows_window:
  "export_rows rows now q =
     sort_key row_id (filter (\<lambda>r. covers now (mins_of q) (ts r)
                                \<and> (agent_of q = [] \<or> agent r = agent_of q)) rows)"
  by (auto simp: export_rows_def Let_def selectRowsByAgentSince_def selectRowsSince_def
        selectRowsByAgentAll_def selectAllRows_def ts_ge_since not_positive_covers
      intro!: arg_cong[where f = "sort_key row_id"] filter_cong)

subsection \<open>Sums of 64 bits\<close>

lemma sum64_Some: "sum64 xs acc = Some s \<Longrightarrow> s = acc + sum_list xs"
  by (induction xs arbitrary: acc) (force split: if_splits)+

lemma sum64_None:
  "int64 acc \<Longrightarrow>
   (sum64 xs acc = None) = (\<exists>n \<in> {..length xs}. \<not> int64 (acc + sum_list (take n xs)))"
proof (induction xs arbitrary: acc)
  case Nil
  then show ?case by simp
next
  case (Cons x xs)
  show ?case
  proof (cases "int64 (acc + x)")
    case True
    have "(\<exists>n \<in> {..length (x # xs)}. \<not> int64 (acc + sum_list (take n (x # xs))))
            = (\<exists>m \<in> {..length xs}. \<not> int64 (acc + x + sum_list (take m xs)))"
    proof
      assume "\<exists>n \<in> {..length (x # xs)}. \<not> int64 (acc + sum_list (take n (x # xs)))"
      then obtain n where n: "n \<le> length (x # xs)"
        "\<not> int64 (acc + sum_list (take n (x # xs)))" by auto
      with Cons.prems obtain m where "n = Suc m" by (cases n) auto
      with n show "\<exists>m \<in> {..length xs}. \<not> int64 (acc + x + sum_list (take m xs))"
        by (auto simp: add.assoc)
    next
      assume "\<exists>m \<in> {..length xs}. \<not> int64 (acc + x + sum_list (take m xs))"
      then obtain m where "m \<le> length xs" "\<not> int64 (acc + x + sum_list (take m xs))" by auto
      then have "Suc m \<in> {..length (x # xs)}"
        "\<not> int64 (acc + sum_list (take (Suc m) (x # xs)))" by (auto simp: add.assoc)
      then show "\<exists>n \<in> {..length (x # xs)}. \<not> int64 (acc + sum_list (take n (x # xs)))"
        by blast
    qed
    with True Cons.IH[OF True] show ?thesis by simp
  next
    case False
    then have "Suc 0 \<in> {..length (x # xs)}"
      "\<not> int64 (acc + sum_list (take (Suc 0) (x # xs)))" by auto
    then have "\<exists>n \<in> {..length (x # xs)}. \<not> int64 (acc + sum_list (take n (x # xs)))"
      by blast
    with False show ?thesis by simp
  qed
qed

text \<open>\<open>SUM\<close> throws exactly when a running sum leaves 64 bits, and else is the sum.\<close>

lemma sql_sum_None: "(sql_sum xs = None) = overflows xs"
  using sum64_None[of 0 xs] by (simp add: sql_sum_def overflows_def int64_def)

lemma sql_sum_Some: "sql_sum xs = Some s \<Longrightarrow> s = sum_list xs"
  using sum64_Some[of xs 0 s] by (simp add: sql_sum_def)

lemma prefix_sum_nonneg:
  "\<forall>x \<in> set xs. (0::int) \<le> x \<Longrightarrow>
   0 \<le> sum_list (take n xs) \<and> sum_list (take n xs) \<le> sum_list xs"
proof (induction xs arbitrary: n)
  case Nil
  then show ?case by simp
next
  case (Cons x xs)
  then have "0 \<le> sum_list (take m xs) \<and> sum_list (take m xs) \<le> sum_list xs" for m by simp
  moreover have "0 \<le> x" using Cons.prems by simp
  moreover have "0 \<le> sum_list xs" using Cons.prems by (simp add: sum_list_nonneg)
  ultimately show ?case by (cases n) (auto simp: add_mono)
qed

text \<open>Byte counts are not negative: then the order of the rows does not matter.\<close>

lemma overflows_nonneg:
  assumes "\<forall>x \<in> set xs. 0 \<le> x"
  shows "overflows xs = (9223372036854775807 < sum_list xs)"
proof
  assume "overflows xs"
  then obtain n where "\<not> int64 (sum_list (take n xs))" by (auto simp: overflows_def)
  with prefix_sum_nonneg[OF assms, of n] show "9223372036854775807 < sum_list xs"
    by (simp add: int64_def)
next
  assume "9223372036854775807 < sum_list xs"
  then have "\<not> int64 (sum_list (take (length xs) xs))" by (simp add: int64_def)
  then show "overflows xs" unfolding overflows_def by blast
qed

subsection \<open>Doubles\<close>

lemma double_of_int_exact: "\<bar>n\<bar> \<le> 9007199254740992 \<Longrightarrow> double_of_int n = n"
  by (simp add: double_of_int_def)

lemma exact53_sum: "exact53 xs \<Longrightarrow> double_of_int (sum_list xs) = sum_list xs"
proof -
  assume "exact53 xs"
  then have "\<bar>sum_list (take (length xs) xs)\<bar> \<le> 9007199254740992"
    unfolding exact53_def by blast
  then show ?thesis by (simp add: double_of_int_exact)
qed

lemma ilog2_unique: "2 ^ k \<le> n \<Longrightarrow> n < 2 ^ Suc k \<Longrightarrow> ilog2 n = int k"
proof (induction k arbitrary: n)
  case 0
  then have "n = 1" by simp
  then show ?case by (simp add: ilog2.simps)
next
  case (Suc k)
  have "(2::int) ^ Suc k \<ge> 2" by simp
  with Suc.prems have n: "\<not> n < 2" by linarith
  have "2 ^ k \<le> n div 2" "n div 2 < 2 ^ Suc k" using Suc.prems by auto
  then have "ilog2 (n div 2) = int k" by (rule Suc.IH)
  with n show ?case by (subst ilog2.simps) simp
qed

lemma ilog2_examples:
  "ilog2 1 = 0" "ilog2 2 = 1" "ilog2 3 = 1" "ilog2 4 = 2" "ilog2 7 = 2" "ilog2 12 = 3"
  "ilog2 14 = 3" "ilog2 9007199254740993 = 53" "ilog2 9007199254740995 = 53"
  "ilog2 9223372036854775807 = 62"
  using ilog2_unique[of 0 1] ilog2_unique[of 1 2] ilog2_unique[of 1 3] ilog2_unique[of 2 4]
    ilog2_unique[of 2 7] ilog2_unique[of 3 12] ilog2_unique[of 3 14]
    ilog2_unique[of 53 9007199254740993] ilog2_unique[of 53 9007199254740995]
    ilog2_unique[of 62 9223372036854775807]
  by simp_all

text \<open>
  The double nearest to \<open>4/3\<close> is \<open>6004799503160661 / 2^52\<close>, which JavaScript prints
  as \<open>1.3333333333333333\<close>; a quotient that is a whole number is exact.
\<close>

lemma binary64_quot_examples:
  "binary64_quot 7 1 = 7"
  "binary64_quot 12 1 = 12"
  "binary64_quot 14 2 = 7"
  "binary64_quot 4 3 = 6004799503160661 / 4503599627370496"
  by (simp_all add: binary64_quot_def binary64_parts_def ilog2_examples scaled_def round_div_def
        pow2_def Let_def)

text \<open>Beyond \<open>2^53\<close> a double holds every second integer, then every fourth, and so on.\<close>

lemma double_of_int_examples:
  "double_of_int 9007199254740993 = 9007199254740992"
  "double_of_int 9007199254740995 = 9007199254740996"
  "double_of_int 9223372036854775807 = 9223372036854775808"
  by (simp_all add: double_of_int_def binary64_parts_def ilog2_examples scaled_def round_div_def
        Let_def)

lemma pow2_powi: "pow2 e = 2 powi e"
  by (simp add: pow2_def power_int_def inverse_eq_divide power_one_over)

lemma ilog2_bounds:
  "1 \<le> n \<Longrightarrow> 0 \<le> ilog2 n \<and> 2 ^ nat (ilog2 n) \<le> n \<and> n < 2 * 2 ^ nat (ilog2 n)"
proof (induction n rule: ilog2.induct)
  case (1 n)
  show ?case
  proof (cases "n < 2")
    case True
    with 1 have "n = 1" by simp
    then show ?thesis by (simp add: ilog2.simps)
  next
    case False
    then have h: "1 \<le> n div 2" by simp
    define k where "k = ilog2 (n div 2)"
    define p :: int where "p = 2 ^ nat k"
    from 1(1)[OF False h] have k: "0 \<le> k" "p \<le> n div 2" "n div 2 < 2 * p"
      by (simp_all add: k_def p_def)
    have e: "ilog2 n = 1 + k" using False by (subst ilog2.simps) (simp add: k_def)
    have "nat (1 + k) = Suc (nat k)" using k(1) by simp
    then have q: "2 ^ nat (ilog2 n) = 2 * p" by (simp add: e p_def)
    have "2 * p \<le> n" "n < 2 * (2 * p)" using k(2,3) by linarith+
    then show ?thesis using k(1) by (simp add: q) (simp add: e)
  qed
qed

lemma scaled_val:
  assumes "0 < b"
  shows "0 < snd (scaled a b e)"
    and "(of_int (fst (scaled a b e)) :: rat) / of_int (snd (scaled a b e))
           = (of_int a / of_int b) / 2 powi e"
proof -
  show "0 < snd (scaled a b e)" using assms by (simp add: scaled_def)
  show "(of_int (fst (scaled a b e)) :: rat) / of_int (snd (scaled a b e))
           = (of_int a / of_int b) / 2 powi e"
  proof (cases "e \<le> 0")
    case True
    define p :: rat where "p = 2 ^ nat (- e)"
    have "(2::rat) powi e = inverse (2 ^ nat (- e))"
      using True by (cases "e = 0") (simp_all add: power_int_def power_one_over inverse_eq_divide)
    then have pw: "(2::rat) powi e = 1 / p" by (simp add: p_def inverse_eq_divide)
    have "fst (scaled a b e) = a * 2 ^ nat (- e)" "snd (scaled a b e) = b"
      using True by (simp_all add: scaled_def)
    then have "(of_int (fst (scaled a b e)) :: rat) / of_int (snd (scaled a b e))
                 = of_int a * p / of_int b" by (simp add: p_def)
    then show ?thesis by (simp add: pw)
  next
    case False
    then have "(2::rat) powi e = 2 ^ nat e" by (simp add: power_int_def)
    then show ?thesis using False by (simp add: scaled_def)
  qed
qed

lemma round_div_error:
  assumes "0 < D"
  shows "\<bar>of_int (round_div N D) - (of_int N / of_int D :: rat)\<bar> \<le> 1 / 2"
proof -
  define q where "q = N div D"
  define r where "r = N mod D"
  define x :: rat where "x = of_int r / of_int D"
  have r: "0 \<le> r" "r < D" using assms by (simp_all add: r_def)
  have "N = D * q + r" by (simp add: q_def r_def)
  then have "(of_int N :: rat) = of_int D * of_int q + of_int r" by (metis of_int_add of_int_mult)
  then have v: "(of_int N / of_int D :: rat) = of_int q + x"
    using assms by (simp add: x_def field_simps)
  have D: "(0::rat) < of_int D" using assms by simp
  have x0: "0 \<le> x" using r(1) D by (simp add: x_def)
  have lt: "(2 * r < D) = (x < 1 / 2)"
  proof -
    have "(x < 1 / 2) = (of_int r * 2 < (of_int D :: rat))"
      using D by (simp add: x_def field_simps)
    also have "\<dots> = (of_int (r * 2) < (of_int D :: rat))" by simp
    also have "\<dots> = (r * 2 < D)" by (simp only: of_int_less_iff)
    finally show ?thesis by (simp add: mult.commute)
  qed
  have gt: "(D < 2 * r) = (1 / 2 < x)"
  proof -
    have "(1 / 2 < x) = ((of_int D :: rat) < of_int r * 2)"
      using D by (simp add: x_def field_simps)
    also have "\<dots> = ((of_int D :: rat) < of_int (r * 2))" by simp
    also have "\<dots> = (D < r * 2)" by (simp only: of_int_less_iff)
    finally show ?thesis by (simp add: mult.commute)
  qed
  have x1: "x < 1" using r(2) D by (simp add: x_def)
  have rd: "round_div N D
              = (if 2 * r < D then q else if D < 2 * r then q + 1 else if even q then q else q + 1)"
    by (simp add: round_div_def q_def r_def Let_def)
  consider "x < 1 / 2" | "1 / 2 < x" | "x = 1 / 2" by linarith
  then show ?thesis
  proof cases
    case 1
    then have "round_div N D = q" using lt by (simp add: rd)
    then show ?thesis using 1 x0 by (simp add: v)
  next
    case 2
    then have "round_div N D = q + 1" using lt gt by (simp add: rd)
    then show ?thesis using 2 x1 by (simp add: v)
  next
    case 3
    then have "\<not> 2 * r < D" "\<not> D < 2 * r" using lt gt by simp_all
    then have "round_div N D = (if even q then q else q + 1)" by (simp only: rd if_False)
    then have "round_div N D = q \<or> round_div N D = q + 1" by (cases "even q") simp_all
    then show ?thesis using 3 by (auto simp: v)
  qed
qed

lemma ilog2_powi:
  assumes "1 \<le> n"
  shows "(2::rat) powi ilog2 n \<le> of_int n" and "(of_int n :: rat) < 2 * 2 powi ilog2 n"
proof -
  from ilog2_bounds[OF assms]
  have k: "0 \<le> ilog2 n" "2 ^ nat (ilog2 n) \<le> n" "n < 2 * 2 ^ nat (ilog2 n)" by simp_all
  have p: "(2::rat) powi ilog2 n = of_int (2 ^ nat (ilog2 n))"
    using k(1) by (simp add: power_int_def)
  show "(2::rat) powi ilog2 n \<le> of_int n" unfolding p using k(2) by (simp only: of_int_le_iff)
  have "(of_int n :: rat) < of_int (2 * 2 ^ nat (ilog2 n))" using k(3) by (simp only: of_int_less_iff)
  then show "(of_int n :: rat) < 2 * 2 powi ilog2 n" unfolding p by simp
qed

lemma binary64_quot_error:
  assumes "0 < d" and "d < 2 ^ 63"
  shows "\<bar>binary64_quot n d - of_int n / of_int d\<bar> \<le> \<bar>of_int n / of_int d\<bar> / 2 ^ 53"
proof (cases "n = 0")
  case True
  then show ?thesis by (simp add: binary64_quot_def binary64_parts_def)
next
  case False
  define a where "a = \<bar>n\<bar>"
  define x :: rat where "x = of_int a / of_int d"
  define k where "k = ilog2 a - ilog2 d"
  define E where "E = (if fst (scaled a d k) < snd (scaled a d k) then k - 1 else k)"
  define e where "e = max (E - 52) (- 1074)"
  define m where "m = round_div (fst (scaled a d e)) (snd (scaled a d e))"
  have a: "1 \<le> a" using False by (simp add: a_def)
  have d: "1 \<le> d" using assms(1) by simp
  have dr: "(0::rat) < of_int d" using assms(1) by simp
  have x0: "0 < x" using a dr by (simp add: x_def)
  have xd: "x * of_int d = of_int a" using dr by (simp add: x_def)
  have pk: "(2::rat) powi k = 2 powi ilog2 a / 2 powi ilog2 d"
    by (simp add: k_def power_int_diff)
  have pd: "(0::rat) < 2 powi ilog2 d" by simp
  have up: "x < 2 * 2 powi k"
  proof -
    have "x * 2 powi ilog2 d \<le> x * of_int d"
      using ilog2_powi(1)[OF d] x0 by (simp add: mult_left_mono)
    also have "\<dots> < 2 * 2 powi ilog2 a" unfolding xd by (rule ilog2_powi(2)[OF a])
    finally have "x < 2 * 2 powi ilog2 a / 2 powi ilog2 d"
      using pd by (simp add: pos_less_divide_eq)
    then show ?thesis by (simp add: pk)
  qed
  have lo: "2 powi k < 2 * x"
  proof -
    have "2 powi ilog2 a \<le> x * of_int d" unfolding xd by (rule ilog2_powi(1)[OF a])
    also have "\<dots> < x * (2 * 2 powi ilog2 d)"
      using ilog2_powi(2)[OF d] x0 by (simp add: mult_strict_left_mono)
    finally have "2 powi ilog2 a / 2 powi ilog2 d < 2 * x"
      using pd by (simp add: pos_divide_less_eq mult.assoc mult.commute)
    then show ?thesis by (simp add: pk)
  qed
  have cmp: "(fst (scaled a d k) < snd (scaled a d k)) = (x < 2 powi k)"
  proof -
    have s: "(0::rat) < of_int (snd (scaled a d k))" using scaled_val(1)[OF assms(1)] by simp
    have "(fst (scaled a d k) < snd (scaled a d k))
            = ((of_int (fst (scaled a d k)) :: rat) < of_int (snd (scaled a d k)))"
      by (simp only: of_int_less_iff)
    also have "\<dots> = ((of_int (fst (scaled a d k)) :: rat) / of_int (snd (scaled a d k)) < 1)"
      using s by (simp add: pos_divide_less_eq)
    also have "\<dots> = (x / 2 powi k < 1)"
      by (simp only: scaled_val(2)[OF assms(1)] x_def)
    also have "\<dots> = (x < 2 powi k)" by (simp add: pos_divide_less_eq)
    finally show ?thesis .
  qed
  have p1: "(2::rat) powi k = 2 * 2 powi (k - 1)" by (simp add: power_int_diff)
  have E: "2 powi E \<le> x \<and> x < 2 * 2 powi E"
  proof (cases "x < 2 powi k")
    case True
    then have "E = k - 1" by (simp add: E_def cmp)
    moreover have "2 powi (k - 1) \<le> x \<and> x < 2 * 2 powi (k - 1)"
      using True lo p1 by linarith
    ultimately show ?thesis by (simp only:)
  next
    case False
    then have "E = k" by (simp add: E_def cmp)
    moreover have "2 powi k \<le> x \<and> x < 2 * 2 powi k"
      using False up by linarith
    ultimately show ?thesis by (simp only:)
  qed
  have "ilog2 d \<le> 62"
  proof -
    from ilog2_bounds[OF d] have "(2::int) ^ nat (ilog2 d) < 2 ^ 63" using assms(2) by linarith
    then have "nat (ilog2 d) < 63" by (simp only: power_strict_increasing_iff)
    then show ?thesis by simp
  qed
  moreover have "0 \<le> ilog2 a" using ilog2_bounds[OF a] by simp
  ultimately have "- 63 \<le> E" by (simp add: E_def k_def)
  then have e: "e = E - 52" by (simp add: e_def)
  have pe: "(2::rat) powi e = 2 powi E / 2 ^ 52"
    by (simp add: e power_int_diff)
  have pe0: "(0::rat) < 2 powi e" by simp
  have "0 < snd (scaled a d e)" by (rule scaled_val(1)[OF assms(1)])
  then have "\<bar>of_int (round_div (fst (scaled a d e)) (snd (scaled a d e)))
              - (of_int (fst (scaled a d e)) / of_int (snd (scaled a d e)) :: rat)\<bar> \<le> 1 / 2"
    by (rule round_div_error)
  then have "\<bar>of_int m - x / 2 powi e\<bar> \<le> 1 / 2"
    by (simp only: m_def scaled_val(2)[OF assms(1)] x_def)
  then have "\<bar>of_int m - x / 2 powi e\<bar> * 2 powi e \<le> 1 / 2 * 2 powi e"
    using pe0 by (simp only: mult_le_cancel_right_pos)
  moreover have "\<bar>of_int m - x / 2 powi e\<bar> * 2 powi e = \<bar>of_int m * 2 powi e - x\<bar>"
  proof -
    have "\<bar>of_int m - x / 2 powi e\<bar> * 2 powi e = \<bar>(of_int m - x / 2 powi e) * 2 powi e\<bar>"
      using pe0 by (simp add: abs_mult)
    also have "(of_int m - x / 2 powi e) * 2 powi e = of_int m * 2 powi e - x"
      using pe0 by (simp add: left_diff_distrib)
    finally show ?thesis .
  qed
  ultimately have "\<bar>of_int m * 2 powi e - x\<bar> \<le> 1 / 2 * 2 powi e" by (simp only:)
  also have "(1 / 2 * 2 powi e :: rat) = 2 powi E / 2 ^ 53" unfolding pe by simp
  also have "\<dots> \<le> x / 2 ^ 53" using E by (simp add: divide_right_mono)
  finally have err: "\<bar>of_int m * 2 powi e - x\<bar> \<le> x / 2 ^ 53" .
  have nz: "(n = 0 \<or> d = 0) = False" "\<bar>d\<bar> = d" using False assms(1) by simp_all
  have parts: "binary64_parts n d = (sgn n * sgn d * m, e)"
    by (simp only: binary64_parts_def Let_def nz if_False m_def e_def E_def k_def a_def)
  have q: "binary64_quot n d = of_int (sgn n) * (of_int m * 2 powi e)"
    using assms(1) by (simp add: binary64_quot_def parts pow2_powi)
  have "n = sgn n * a" by (simp add: a_def mult_sgn_abs)
  then have "(of_int n :: rat) = of_int (sgn n) * of_int a" by (metis of_int_mult)
  then have nd: "(of_int n / of_int d :: rat) = of_int (sgn n) * x"
    by (simp add: x_def)
  have "binary64_quot n d - of_int n / of_int d = of_int (sgn n) * (of_int m * 2 powi e - x)"
    by (simp add: q nd right_diff_distrib)
  moreover have "\<bar>of_int (sgn n) :: rat\<bar> = 1" using False by (simp add: sgn_if)
  ultimately have "\<bar>binary64_quot n d - of_int n / of_int d\<bar> = \<bar>of_int m * 2 powi e - x\<bar>"
    by (simp add: abs_mult)
  moreover have "\<bar>of_int n / of_int d :: rat\<bar> = x"
    using x0 \<open>\<bar>of_int (sgn n) :: rat\<bar> = 1\<close> by (simp add: nd abs_mult)
  ultimately show ?thesis using err by simp
qed

subsection \<open>The summary statements\<close>

lemma sort_examples:
  "sort [''manager'', ''coder''] = [''coder'', ''manager'']"
  "sort [''coder'', ''manager''] = [''coder'', ''manager'']"
  by (simp_all add: less_eq_char_def less_char_def)

lemma summarize_matches:
  "summarize rows since a = group_by_agent (filter (matches since a) rows)"
proof -
  have "ts_ge (ts r) s = matches (Some s) None r" for r s
    by (cases s) (simp_all add: matches_def)
  moreover have "matches (Some s) (Some g) r = (matches (Some s) None r \<and> agent r = g)"
    for r s g by (simp add: matches_def)
  moreover have "matches None (Some g) r = (agent r = g)" "matches None None r" for r g
    by (simp_all add: matches_def)
  ultimately show ?thesis
    by (cases since; cases a)
       (simp_all add: summarize_def selectSummaryByAgentSince_def selectSummarySince_def
          selectSummaryByAgentAll_def selectSummaryAll_def cong: filter_cong)
qed

lemma group_by_agent_cases:
  "group_by_agent rows =
     (if \<exists>g. overflows (map in_bytes (filter (\<lambda>r. agent r = g) rows))
            \<or> overflows (map out_bytes (filter (\<lambda>r. agent r = g) rows))
      then Inl ''integer overflow''
      else Inr (map (\<lambda>g. summary_of g (filter (\<lambda>r. agent r = g) rows))
                  (sort (remdups (map agent rows)))))"
proof -
  have e: "filter (\<lambda>r. agent r = g) rows = []" if "g \<notin> set (map agent rows)" for g
    using that by (auto simp: filter_empty_conv)
  have "(\<exists>g. overflows (map in_bytes (filter (\<lambda>r. agent r = g) rows))
            \<or> overflows (map out_bytes (filter (\<lambda>r. agent r = g) rows)))
        = (\<exists>g \<in> set (map agent rows).
              overflows (map in_bytes (filter (\<lambda>r. agent r = g) rows))
            \<or> overflows (map out_bytes (filter (\<lambda>r. agent r = g) rows)))"
  proof
    assume "\<exists>g. overflows (map in_bytes (filter (\<lambda>r. agent r = g) rows))
            \<or> overflows (map out_bytes (filter (\<lambda>r. agent r = g) rows))"
    then obtain g where g: "overflows (map in_bytes (filter (\<lambda>r. agent r = g) rows))
            \<or> overflows (map out_bytes (filter (\<lambda>r. agent r = g) rows))" by blast
    have "g \<in> set (map agent rows)"
    proof (rule ccontr)
      assume "g \<notin> set (map agent rows)"
      from e[OF this] g show False by (simp add: overflows_def int64_def)
    qed
    with g show "\<exists>g \<in> set (map agent rows).
              overflows (map in_bytes (filter (\<lambda>r. agent r = g) rows))
            \<or> overflows (map out_bytes (filter (\<lambda>r. agent r = g) rows))" by blast
  qed blast
  then show ?thesis
    by (simp add: group_by_agent_def Let_def list_all_iff sql_sum_None comp_def
          split_def image_image)
qed

lemma group_by_agent_Nil: "group_by_agent [] = Inr []"
  by (simp add: group_by_agent_def)

lemma group_by_agent_examples:
  "group_by_agent [manager_row, coder_row 1 100, coder_row 2 200]
     = Inr [\<lparr> sum_agent = ''coder'', requests = 2, sum_in = 300, sum_out = 20, avg_ms = 7 \<rparr>,
            \<lparr> sum_agent = ''manager'', requests = 1, sum_in = 100, sum_out = 40, avg_ms = 12 \<rparr>]"
  "group_by_agent [coder_row 2 200]
     = Inr [\<lparr> sum_agent = ''coder'', requests = 1, sum_in = 200, sum_out = 10, avg_ms = 7 \<rparr>]"
  "group_by_agent [manager_row]
     = Inr [\<lparr> sum_agent = ''manager'', requests = 1, sum_in = 100, sum_out = 40, avg_ms = 12 \<rparr>]"
  "group_by_agent [coder_row 1 100\<lparr>duration_ms := 1\<rparr>, coder_row 2 200\<lparr>duration_ms := 1\<rparr>,
       coder_row 3 300\<lparr>duration_ms := 2\<rparr>]
     = Inr [\<lparr> sum_agent = ''coder'', requests = 3, sum_in = 600, sum_out = 30,
              avg_ms = 6004799503160661 / 4503599627370496 \<rparr>]"
  "group_by_agent [coder_row 1 9223372036854775807, coder_row 2 1] = Inl ''integer overflow''"
  "group_by_agent [coder_row 1 9007199254740992, coder_row 2 1]
     = Inr [\<lparr> sum_agent = ''coder'', requests = 2, sum_in = 9007199254740992, sum_out = 20,
              avg_ms = 7 \<rparr>]"
  by (simp_all add: group_by_agent_def Let_def manager_row_def coder_row_def sort_examples
        sql_sum_def int64_def summary_of_def double_of_int_exact double_of_int_examples
        binary64_quot_examples)

lemma group_by_agent_one:
  "group_by_agent [manager_row] = Inr [summary_of ''manager'' [manager_row]]"
  by (simp add: group_by_agent_def manager_row_def sql_sum_def int64_def)

lemma summary_of_fields:
  "sum_agent (summary_of g rs) = g"
  "requests (summary_of g rs) = int (length rs)"
  "sum_in (summary_of g rs) = double_of_int (sum_list (map in_bytes rs))"
  "sum_out (summary_of g rs) = double_of_int (sum_list (map out_bytes rs))"
  "avg_ms (summary_of g rs)
     = binary64_quot (double_of_int (sum_list (map duration_ms rs))) (int (length rs))"
  by (simp_all add: summary_of_def)

lemma summarize_cases:
  "summarize rows since a =
     (if \<exists>g. overflows (map in_bytes (selected since a rows g))
            \<or> overflows (map out_bytes (selected since a rows g))
      then Inl ''integer overflow''
      else Inr (map (\<lambda>g. summary_of g (selected since a rows g))
                  (sort (remdups (map agent (filter (matches since a) rows))))))"
proof -
  have sel: "filter (\<lambda>r. agent r = g) (filter (matches since a) rows) = selected since a rows g"
    for g by (simp add: selected_def)
  show ?thesis
    by (simp only: summarize_matches group_by_agent_cases[of "filter (matches since a) rows"] sel)
qed

lemma summarize_Inl:
  assumes "summarize rows since a = Inl e"
  shows "e = ''integer overflow''
        \<and> (\<exists>g. overflows (map in_bytes (selected since a rows g))
               \<or> overflows (map out_bytes (selected since a rows g)))"
  using assms unfolding summarize_cases by (auto split: if_splits)

lemma summarize_Inr:
  assumes "summarize rows since a = Inr ss"
  shows "ss = map (\<lambda>g. summary_of g (selected since a rows g))
                  (sort (remdups (map agent (filter (matches since a) rows))))"
    and "\<not> overflows (map in_bytes (selected since a rows g))"
    and "\<not> overflows (map out_bytes (selected since a rows g))"
  using assms unfolding summarize_cases by (simp_all split: if_splits)

lemma selected_nonempty:
  "g \<in> set (map agent (filter (matches since a) rows)) \<Longrightarrow> selected since a rows g \<noteq> []"
  by (auto simp: selected_def filter_empty_conv)

lemma summarize_nonneg:
  assumes nn: "\<forall>r \<in> set rows. 0 \<le> in_bytes r \<and> 0 \<le> out_bytes r"
  shows "(summarize rows since a = Inl ''integer overflow'')
              = (\<exists>g. 9223372036854775807 < sum_list (map in_bytes (selected since a rows g))
                     \<or> 9223372036854775807 < sum_list (map out_bytes (selected since a rows g)))"
proof -
  have "\<forall>x \<in> set (map in_bytes (selected since a rows g)). 0 \<le> x" for g
    using nn by (auto simp: selected_def)
  then have i: "overflows (map in_bytes (selected since a rows g))
          = (9223372036854775807 < sum_list (map in_bytes (selected since a rows g)))" for g
    by (rule overflows_nonneg)
  have "\<forall>x \<in> set (map out_bytes (selected since a rows g)). 0 \<le> x" for g
    using nn by (auto simp: selected_def)
  then have o: "overflows (map out_bytes (selected since a rows g))
          = (9223372036854775807 < sum_list (map out_bytes (selected since a rows g)))" for g
    by (rule overflows_nonneg)
  show ?thesis unfolding summarize_cases i o by simp
qed

lemma summarize_three:
  assumes "agent r1 = g" "agent r2 = g" "agent r3 = g"
    and "in_bytes r1 = 100" "in_bytes r2 = 200" "in_bytes r3 = 300"
    and "\<bar>out_bytes r1\<bar> \<le> 9007199254740992" "\<bar>out_bytes r2\<bar> \<le> 9007199254740992"
      "\<bar>out_bytes r3\<bar> \<le> 9007199254740992"
  shows "\<exists>s. summarize [r1, r2, r3] None None = Inr [s]
                 \<and> sum_agent s = g \<and> requests s = 3 \<and> sum_in s = 600"
proof -
  have o: "int64 (out_bytes r1)" "int64 (out_bytes r1 + out_bytes r2)"
    "int64 (out_bytes r1 + out_bytes r2 + out_bytes r3)"
    using assms(7-9) unfolding int64_def by linarith+
  have i: "int64 100" "int64 300" "int64 600" by (simp_all add: int64_def)
  have "sql_sum (map in_bytes [r1, r2, r3]) \<noteq> None" "sql_sum (map out_bytes [r1, r2, r3]) \<noteq> None"
    using o i assms(4-6) by (simp_all add: sql_sum_def)
  then have "group_by_agent [r1, r2, r3] = Inr [summary_of g [r1, r2, r3]]"
    using assms(1-3) by (simp add: group_by_agent_def)
  then show ?thesis
    using assms(4-6)
    by (simp add: summarize_def selectSummaryAll_def summary_of_fields double_of_int_exact)
qed

lemma summarize_examples:
  "summarize [manager_row, coder_row 1 100, coder_row 2 200] None None
       = Inr [\<lparr> sum_agent = ''coder'', requests = 2, sum_in = 300, sum_out = 20, avg_ms = 7 \<rparr>,
              \<lparr> sum_agent = ''manager'', requests = 1, sum_in = 100, sum_out = 40, avg_ms = 12 \<rparr>]"
  "summarize [manager_row, coder_row 1 100, coder_row 2 200] (Some (Num 1700000000002)) None
       = Inr [\<lparr> sum_agent = ''coder'', requests = 1, sum_in = 200, sum_out = 10, avg_ms = 7 \<rparr>]"
  "summarize [manager_row, coder_row 1 100, coder_row 2 200] None (Some ''manager'')
       = Inr [\<lparr> sum_agent = ''manager'', requests = 1, sum_in = 100, sum_out = 40, avg_ms = 12 \<rparr>]"
  "summarize [coder_row 1 100\<lparr>duration_ms := 1\<rparr>, coder_row 2 200\<lparr>duration_ms := 1\<rparr>,
                 coder_row 3 300\<lparr>duration_ms := 2\<rparr>] None None
       = Inr [\<lparr> sum_agent = ''coder'', requests = 3, sum_in = 600, sum_out = 30,
                avg_ms = 6004799503160661 / 4503599627370496 \<rparr>]"
  "summarize [coder_row 1 9223372036854775807, coder_row 2 1] None None
       = Inl ''integer overflow''"
  "summarize [coder_row 1 9007199254740992, coder_row 2 1] None None
       = Inr [\<lparr> sum_agent = ''coder'', requests = 2, sum_in = 9007199254740992, sum_out = 20,
                avg_ms = 7 \<rparr>]"
proof -
  have m: "filter (matches (Some (Num 1700000000002)) None)
             [manager_row, coder_row 1 100, coder_row 2 200] = [coder_row 2 200]"
    "filter (matches None (Some ''manager''))
             [manager_row, coder_row 1 100, coder_row 2 200] = [manager_row]"
    "filter (matches None None) rs = rs" for rs
    by (simp_all add: matches_def manager_row_def coder_row_def)
  show "summarize [manager_row, coder_row 1 100, coder_row 2 200] None None
       = Inr [\<lparr> sum_agent = ''coder'', requests = 2, sum_in = 300, sum_out = 20, avg_ms = 7 \<rparr>,
              \<lparr> sum_agent = ''manager'', requests = 1, sum_in = 100, sum_out = 40, avg_ms = 12 \<rparr>]"
    by (simp only: summarize_matches m group_by_agent_examples)
  show "summarize [manager_row, coder_row 1 100, coder_row 2 200] (Some (Num 1700000000002)) None
       = Inr [\<lparr> sum_agent = ''coder'', requests = 1, sum_in = 200, sum_out = 10, avg_ms = 7 \<rparr>]"
    by (simp only: summarize_matches m group_by_agent_examples)
  show "summarize [manager_row, coder_row 1 100, coder_row 2 200] None (Some ''manager'')
       = Inr [\<lparr> sum_agent = ''manager'', requests = 1, sum_in = 100, sum_out = 40, avg_ms = 12 \<rparr>]"
    by (simp only: summarize_matches m group_by_agent_examples)
  show "summarize [coder_row 1 100\<lparr>duration_ms := 1\<rparr>, coder_row 2 200\<lparr>duration_ms := 1\<rparr>,
                 coder_row 3 300\<lparr>duration_ms := 2\<rparr>] None None
       = Inr [\<lparr> sum_agent = ''coder'', requests = 3, sum_in = 600, sum_out = 30,
                avg_ms = 6004799503160661 / 4503599627370496 \<rparr>]"
    by (simp only: summarize_matches m group_by_agent_examples)
  show "summarize [coder_row 1 9223372036854775807, coder_row 2 1] None None
       = Inl ''integer overflow''"
    by (simp only: summarize_matches m group_by_agent_examples)
  show "summarize [coder_row 1 9007199254740992, coder_row 2 1] None None
       = Inr [\<lparr> sum_agent = ''coder'', requests = 2, sum_in = 9007199254740992, sum_out = 20,
                avg_ms = 7 \<rparr>]"
    by (simp only: summarize_matches m group_by_agent_examples)
qed

text \<open>
  C7. The summary query returns one row for each agent among the records that match the
  optional time window and the optional agent filter, the agents in ascending order, and
  the row of an agent holds the number of its matching records, the sums of their
  \<open>in_bytes\<close> and \<open>out_bytes\<close> and the average of their \<open>duration_ms\<close>, each as the
  double that JavaScript receives: a sum up to \<open>2^53\<close> is exact, and the average is the
  double nearest to the quotient, within \<open>2^-53\<close> of it in proportion. The one other
  outcome is that the statement throws \<open>integer overflow\<close>, when a sum of byte counts
  leaves 64 bits. Three records of one agent with \<open>in_bytes\<close> 100, 200 and 300, and with
  \<open>out_bytes\<close> that a double counts exactly, give one row with \<open>requests = 3\<close> and
  \<open>sum_in = 600\<close>. The closed equations are a store of one \<open>manager\<close> record and two
  younger \<open>coder\<close> records, summarised whole, from the timestamp of the last record on
  and for \<open>manager\<close> alone; three durations of 1, 1 and 2 ms, whose average is the
  double nearest to \<open>4/3\<close>; a sum that overflows; and a sum of \<open>2^53 + 1\<close>, which
  arrives as \<open>2^53\<close>.
\<close>

theorem summarize_groups:
  "(case summarize rows since a of
      Inl e \<Rightarrow>
        e = ''integer overflow''
        \<and> (\<exists>g. overflows (map in_bytes (selected since a rows g))
               \<or> overflows (map out_bytes (selected since a rows g)))
    | Inr ss \<Rightarrow>
        map sum_agent ss = sort (remdups (map agent (filter (matches since a) rows)))
        \<and> (\<forall>s \<in> set ss.
              selected since a rows (sum_agent s) \<noteq> []
              \<and> \<not> overflows (map in_bytes (selected since a rows (sum_agent s)))
              \<and> \<not> overflows (map out_bytes (selected since a rows (sum_agent s)))
              \<and> requests s = int (length (selected since a rows (sum_agent s)))
              \<and> sum_in s
                  = double_of_int (sum_list (map in_bytes (selected since a rows (sum_agent s))))
              \<and> sum_out s
                  = double_of_int (sum_list (map out_bytes (selected since a rows (sum_agent s))))
              \<and> (\<bar>sum_list (map in_bytes (selected since a rows (sum_agent s)))\<bar>
                     \<le> 9007199254740992
                   \<longrightarrow> sum_in s = sum_list (map in_bytes (selected since a rows (sum_agent s))))
              \<and> (\<bar>sum_list (map out_bytes (selected since a rows (sum_agent s)))\<bar>
                     \<le> 9007199254740992
                   \<longrightarrow> sum_out s = sum_list (map out_bytes (selected since a rows (sum_agent s))))
              \<and> (exact53 (map duration_ms (selected since a rows (sum_agent s)))
                   \<longrightarrow> avg_ms s
                         = binary64_quot
                             (sum_list (map duration_ms (selected since a rows (sum_agent s))))
                             (int (length (selected since a rows (sum_agent s))))
                       \<and> (int (length (selected since a rows (sum_agent s))) < 2 ^ 63
                            \<longrightarrow> \<bar>avg_ms s
                                   - of_int (sum_list (map duration_ms
                                       (selected since a rows (sum_agent s))))
                                     / of_int (int (length (selected since a rows (sum_agent s))))\<bar>
                                  \<le> \<bar>of_int (sum_list (map duration_ms
                                         (selected since a rows (sum_agent s))))
                                       / of_int (int (length
                                           (selected since a rows (sum_agent s))))\<bar>
                                     / 2 ^ 53))))
   \<and> ((\<forall>r \<in> set rows. 0 \<le> in_bytes r \<and> 0 \<le> out_bytes r)
        \<longrightarrow> (summarize rows since a = Inl ''integer overflow'')
              = (\<exists>g. 9223372036854775807 < sum_list (map in_bytes (selected since a rows g))
                     \<or> 9223372036854775807 < sum_list (map out_bytes (selected since a rows g))))
   \<and> (agent r1 = g \<and> agent r2 = g \<and> agent r3 = g
        \<and> in_bytes r1 = 100 \<and> in_bytes r2 = 200 \<and> in_bytes r3 = 300
        \<and> \<bar>out_bytes r1\<bar> \<le> 9007199254740992 \<and> \<bar>out_bytes r2\<bar> \<le> 9007199254740992
        \<and> \<bar>out_bytes r3\<bar> \<le> 9007199254740992
        \<longrightarrow> (\<exists>s. summarize [r1, r2, r3] None None = Inr [s]
                 \<and> sum_agent s = g \<and> requests s = 3 \<and> sum_in s = 600))
   \<and> summarize [manager_row, coder_row 1 100, coder_row 2 200] None None
       = Inr [\<lparr> sum_agent = ''coder'', requests = 2, sum_in = 300, sum_out = 20, avg_ms = 7 \<rparr>,
              \<lparr> sum_agent = ''manager'', requests = 1, sum_in = 100, sum_out = 40, avg_ms = 12 \<rparr>]
   \<and> summarize [manager_row, coder_row 1 100, coder_row 2 200] (Some (Num 1700000000002)) None
       = Inr [\<lparr> sum_agent = ''coder'', requests = 1, sum_in = 200, sum_out = 10, avg_ms = 7 \<rparr>]
   \<and> summarize [manager_row, coder_row 1 100, coder_row 2 200] None (Some ''manager'')
       = Inr [\<lparr> sum_agent = ''manager'', requests = 1, sum_in = 100, sum_out = 40, avg_ms = 12 \<rparr>]
   \<and> summarize [coder_row 1 100\<lparr>duration_ms := 1\<rparr>, coder_row 2 200\<lparr>duration_ms := 1\<rparr>,
                 coder_row 3 300\<lparr>duration_ms := 2\<rparr>] None None
       = Inr [\<lparr> sum_agent = ''coder'', requests = 3, sum_in = 600, sum_out = 30,
                avg_ms = 6004799503160661 / 4503599627370496 \<rparr>]
   \<and> summarize [coder_row 1 9223372036854775807, coder_row 2 1] None None
       = Inl ''integer overflow''
   \<and> summarize [coder_row 1 9007199254740992, coder_row 2 1] None None
       = Inr [\<lparr> sum_agent = ''coder'', requests = 2, sum_in = 9007199254740992, sum_out = 20,
                avg_ms = 7 \<rparr>]"
proof -
  have main: "case summarize rows since a of
      Inl e \<Rightarrow>
        e = ''integer overflow''
        \<and> (\<exists>g. overflows (map in_bytes (selected since a rows g))
               \<or> overflows (map out_bytes (selected since a rows g)))
    | Inr ss \<Rightarrow>
        map sum_agent ss = sort (remdups (map agent (filter (matches since a) rows)))
        \<and> (\<forall>s \<in> set ss.
              selected since a rows (sum_agent s) \<noteq> []
              \<and> \<not> overflows (map in_bytes (selected since a rows (sum_agent s)))
              \<and> \<not> overflows (map out_bytes (selected since a rows (sum_agent s)))
              \<and> requests s = int (length (selected since a rows (sum_agent s)))
              \<and> sum_in s
                  = double_of_int (sum_list (map in_bytes (selected since a rows (sum_agent s))))
              \<and> sum_out s
                  = double_of_int (sum_list (map out_bytes (selected since a rows (sum_agent s))))
              \<and> (\<bar>sum_list (map in_bytes (selected since a rows (sum_agent s)))\<bar>
                     \<le> 9007199254740992
                   \<longrightarrow> sum_in s = sum_list (map in_bytes (selected since a rows (sum_agent s))))
              \<and> (\<bar>sum_list (map out_bytes (selected since a rows (sum_agent s)))\<bar>
                     \<le> 9007199254740992
                   \<longrightarrow> sum_out s = sum_list (map out_bytes (selected since a rows (sum_agent s))))
              \<and> (exact53 (map duration_ms (selected since a rows (sum_agent s)))
                   \<longrightarrow> avg_ms s
                         = binary64_quot
                             (sum_list (map duration_ms (selected since a rows (sum_agent s))))
                             (int (length (selected since a rows (sum_agent s))))
                       \<and> (int (length (selected since a rows (sum_agent s))) < 2 ^ 63
                            \<longrightarrow> \<bar>avg_ms s
                                   - of_int (sum_list (map duration_ms
                                       (selected since a rows (sum_agent s))))
                                     / of_int (int (length (selected since a rows (sum_agent s))))\<bar>
                                  \<le> \<bar>of_int (sum_list (map duration_ms
                                         (selected since a rows (sum_agent s))))
                                       / of_int (int (length
                                           (selected since a rows (sum_agent s))))\<bar>
                                     / 2 ^ 53)))"
  proof (cases "summarize rows since a")
    case (Inl e)
    from summarize_Inl[OF Inl] show ?thesis by (simp only: Inl sum.case)
  next
    case (Inr ss)
    note ss = summarize_Inr(1)[OF Inr]
    have names: "map sum_agent ss = sort (remdups (map agent (filter (matches since a) rows)))"
      by (subst ss) (simp add: comp_def summary_of_fields)
    have row: "selected since a rows (sum_agent s) \<noteq> []
              \<and> \<not> overflows (map in_bytes (selected since a rows (sum_agent s)))
              \<and> \<not> overflows (map out_bytes (selected since a rows (sum_agent s)))
              \<and> requests s = int (length (selected since a rows (sum_agent s)))
              \<and> sum_in s
                  = double_of_int (sum_list (map in_bytes (selected since a rows (sum_agent s))))
              \<and> sum_out s
                  = double_of_int (sum_list (map out_bytes (selected since a rows (sum_agent s))))
              \<and> (\<bar>sum_list (map in_bytes (selected since a rows (sum_agent s)))\<bar>
                     \<le> 9007199254740992
                   \<longrightarrow> sum_in s = sum_list (map in_bytes (selected since a rows (sum_agent s))))
              \<and> (\<bar>sum_list (map out_bytes (selected since a rows (sum_agent s)))\<bar>
                     \<le> 9007199254740992
                   \<longrightarrow> sum_out s = sum_list (map out_bytes (selected since a rows (sum_agent s))))
              \<and> (exact53 (map duration_ms (selected since a rows (sum_agent s)))
                   \<longrightarrow> avg_ms s
                         = binary64_quot
                             (sum_list (map duration_ms (selected since a rows (sum_agent s))))
                             (int (length (selected since a rows (sum_agent s))))
                       \<and> (int (length (selected since a rows (sum_agent s))) < 2 ^ 63
                            \<longrightarrow> \<bar>avg_ms s
                                   - of_int (sum_list (map duration_ms
                                       (selected since a rows (sum_agent s))))
                                     / of_int (int (length (selected since a rows (sum_agent s))))\<bar>
                                  \<le> \<bar>of_int (sum_list (map duration_ms
                                         (selected since a rows (sum_agent s))))
                                       / of_int (int (length
                                           (selected since a rows (sum_agent s))))\<bar>
                                     / 2 ^ 53))"
      if "s \<in> set ss" for s
    proof -
      from that obtain g where g: "g \<in> set (map agent (filter (matches since a) rows))"
        and s: "s = summary_of g (selected since a rows g)"
        by (subst (asm) ss) auto
      have sg: "sum_agent s = g" by (simp add: s summary_of_fields)
      let ?G = "selected since a rows g"
      have ne: "?G \<noteq> []" by (rule selected_nonempty[OF g])
      have len: "0 < int (length ?G)" using ne by simp
      have avg: "avg_ms s = binary64_quot (sum_list (map duration_ms ?G)) (int (length ?G))"
        if "exact53 (map duration_ms ?G)"
        by (simp add: s summary_of_fields exact53_sum[OF that])
      have err: "\<bar>avg_ms s - of_int (sum_list (map duration_ms ?G)) / of_int (int (length ?G))\<bar>
                   \<le> \<bar>of_int (sum_list (map duration_ms ?G)) / of_int (int (length ?G))\<bar> / 2 ^ 53"
        if "exact53 (map duration_ms ?G)" "int (length ?G) < 2 ^ 63"
        unfolding avg[OF that(1)] by (rule binary64_quot_error[OF len that(2)])
      have R: "?G \<noteq> []
          \<and> \<not> overflows (map in_bytes ?G) \<and> \<not> overflows (map out_bytes ?G)
          \<and> requests s = int (length ?G)
          \<and> sum_in s = double_of_int (sum_list (map in_bytes ?G))
          \<and> sum_out s = double_of_int (sum_list (map out_bytes ?G))
          \<and> (\<bar>sum_list (map in_bytes ?G)\<bar> \<le> 9007199254740992
               \<longrightarrow> sum_in s = sum_list (map in_bytes ?G))
          \<and> (\<bar>sum_list (map out_bytes ?G)\<bar> \<le> 9007199254740992
               \<longrightarrow> sum_out s = sum_list (map out_bytes ?G))
          \<and> (exact53 (map duration_ms ?G)
               \<longrightarrow> avg_ms s = binary64_quot (sum_list (map duration_ms ?G)) (int (length ?G))
                   \<and> (int (length ?G) < 2 ^ 63
                        \<longrightarrow> \<bar>avg_ms s - of_int (sum_list (map duration_ms ?G))
                                           / of_int (int (length ?G))\<bar>
                              \<le> \<bar>of_int (sum_list (map duration_ms ?G))
                                   / of_int (int (length ?G))\<bar> / 2 ^ 53))"
        using ne summarize_Inr(2,3)[OF Inr, of g] avg err
        by (simp add: s summary_of_fields double_of_int_exact)
      show ?thesis unfolding sg by (rule R)
    qed
    show ?thesis using names row by (simp only: Inr sum.case) blast
  qed
  have nonneg: "(\<forall>r \<in> set rows. 0 \<le> in_bytes r \<and> 0 \<le> out_bytes r)
        \<longrightarrow> (summarize rows since a = Inl ''integer overflow'')
              = (\<exists>g. 9223372036854775807 < sum_list (map in_bytes (selected since a rows g))
                     \<or> 9223372036854775807 < sum_list (map out_bytes (selected since a rows g)))"
    using summarize_nonneg[of rows since a] by blast
  have three: "agent r1 = g \<and> agent r2 = g \<and> agent r3 = g
        \<and> in_bytes r1 = 100 \<and> in_bytes r2 = 200 \<and> in_bytes r3 = 300
        \<and> \<bar>out_bytes r1\<bar> \<le> 9007199254740992 \<and> \<bar>out_bytes r2\<bar> \<le> 9007199254740992
        \<and> \<bar>out_bytes r3\<bar> \<le> 9007199254740992
        \<longrightarrow> (\<exists>s. summarize [r1, r2, r3] None None = Inr [s]
                 \<and> sum_agent s = g \<and> requests s = 3 \<and> sum_in s = 600)"
    using summarize_three[of r1 g r2 r3] by blast
  show ?thesis
    by (intro conjI) (rule main nonneg three summarize_examples)+
qed

theorem summarize_groups_witness:
  "0 \<le> in_bytes manager_row \<and> 0 \<le> out_bytes manager_row
   \<and> 0 \<le> in_bytes (coder_row 1 100) \<and> 0 \<le> out_bytes (coder_row 1 100)
   \<and> 0 \<le> in_bytes (coder_row 2 200) \<and> 0 \<le> out_bytes (coder_row 2 200)
   \<and> agent (coder_row 3 300) = ''coder'' \<and> in_bytes (coder_row 3 300) = 300
   \<and> \<bar>out_bytes (coder_row 3 300)\<bar> \<le> 9007199254740992
   \<and> selected (Some (Num 1700000000002)) None
         [manager_row, coder_row 1 100, coder_row 2 200] ''coder'' = [coder_row 2 200]
   \<and> exact53 (map duration_ms [coder_row 2 200])
   \<and> summarize [manager_row, coder_row 1 100, coder_row 2 200] (Some (Num 1700000000002)) None
       = Inr [\<lparr> sum_agent = ''coder'', requests = 1, sum_in = 200, sum_out = 10, avg_ms = 7 \<rparr>]
   \<and> binary64_quot (sum_list (map duration_ms [coder_row 2 200])) 1 = 7
   \<and> \<not> overflows (map in_bytes [coder_row 2 200])
   \<and> \<not> (\<exists>g. 9223372036854775807
              < sum_list (map in_bytes (selected (Some (Num 1700000000002)) None
                                          [manager_row, coder_row 1 100, coder_row 2 200] g))
            \<or> 9223372036854775807
              < sum_list (map out_bytes (selected (Some (Num 1700000000002)) None
                                           [manager_row, coder_row 1 100, coder_row 2 200] g)))
   \<and> (\<exists>s. summarize [coder_row 1 100, coder_row 2 200, coder_row 3 300] None None = Inr [s]
          \<and> sum_agent s = ''coder'' \<and> requests s = 3 \<and> sum_in s = 600)"
proof -
  let ?rows = "[manager_row, coder_row 1 100, coder_row 2 200]"
  let ?since = "Some (Num 1700000000002)"
  note T = summarize_groups[where rows = ?rows and since = ?since and a = None
      and ?r1.0 = "coder_row 1 100" and g = "''coder''" and ?r2.0 = "coder_row 2 200"
      and ?r3.0 = "coder_row 3 300"]
  have e: "summarize ?rows ?since None
       = Inr [\<lparr> sum_agent = ''coder'', requests = 1, sum_in = 200, sum_out = 10, avg_ms = 7 \<rparr>]"
    using T by (simp only:)
  have sel: "selected ?since None ?rows ''coder'' = [coder_row 2 200]"
    by (simp add: selected_def matches_def manager_row_def coder_row_def)
  have ex: "exact53 (map duration_ms [coder_row 2 200])"
    by (simp add: exact53_def coder_row_def atMost_Suc)
  have nn: "\<forall>r \<in> set ?rows. 0 \<le> in_bytes r \<and> 0 \<le> out_bytes r"
    by (simp add: manager_row_def coder_row_def)
  have h3: "agent (coder_row 1 100) = ''coder'' \<and> agent (coder_row 2 200) = ''coder''
        \<and> agent (coder_row 3 300) = ''coder''
        \<and> in_bytes (coder_row 1 100) = 100 \<and> in_bytes (coder_row 2 200) = 200
        \<and> in_bytes (coder_row 3 300) = 300
        \<and> \<bar>out_bytes (coder_row 1 100)\<bar> \<le> 9007199254740992
        \<and> \<bar>out_bytes (coder_row 2 200)\<bar> \<le> 9007199254740992
        \<and> \<bar>out_bytes (coder_row 3 300)\<bar> \<le> 9007199254740992"
    by (simp add: coder_row_def)
  from T have "case summarize ?rows ?since None of
      Inl e \<Rightarrow> False
    | Inr ss \<Rightarrow>
        (\<forall>s \<in> set ss.
              \<not> overflows (map in_bytes (selected ?since None ?rows (sum_agent s)))
              \<and> (exact53 (map duration_ms (selected ?since None ?rows (sum_agent s)))
                   \<longrightarrow> avg_ms s
                         = binary64_quot
                             (sum_list (map duration_ms (selected ?since None ?rows (sum_agent s))))
                             (int (length (selected ?since None ?rows (sum_agent s))))))"
    by (simp only: e sum.case) blast
  then have row: "\<not> overflows (map in_bytes [coder_row 2 200])"
    "binary64_quot (sum_list (map duration_ms [coder_row 2 200])) 1 = 7"
    using ex by (simp_all add: e sel)
  from T nn have "(summarize ?rows ?since None = Inl ''integer overflow'')
              = (\<exists>g. 9223372036854775807 < sum_list (map in_bytes (selected ?since None ?rows g))
                     \<or> 9223372036854775807 < sum_list (map out_bytes (selected ?since None ?rows g)))"
    by blast
  then have no: "\<not> (\<exists>g. 9223372036854775807 < sum_list (map in_bytes (selected ?since None ?rows g))
                     \<or> 9223372036854775807 < sum_list (map out_bytes (selected ?since None ?rows g)))"
    by (simp only: e) simp
  from T h3 have three: "\<exists>s. summarize [coder_row 1 100, coder_row 2 200, coder_row 3 300] None None
                         = Inr [s]
          \<and> sum_agent s = ''coder'' \<and> requests s = 3 \<and> sum_in s = 600"
    by blast
  have basics: "0 \<le> in_bytes manager_row" "0 \<le> out_bytes manager_row"
    "0 \<le> in_bytes (coder_row 1 100)" "0 \<le> out_bytes (coder_row 1 100)"
    "0 \<le> in_bytes (coder_row 2 200)" "0 \<le> out_bytes (coder_row 2 200)"
    "agent (coder_row 3 300) = ''coder''" "in_bytes (coder_row 3 300) = 300"
    "\<bar>out_bytes (coder_row 3 300)\<bar> \<le> 9007199254740992"
    by (simp_all add: manager_row_def coder_row_def)
  show ?thesis
    by (intro conjI) (rule basics sel ex e row no three)+
qed

text \<open>
  The two handlers, were they called, select by the window: the records that
  the window of \<open>periodMinutes\<close> covers and that pass the agent filter, summarised by
  agent for \<open>/stats\<close> (status 500 when the summary statement throws) and in ascending
  id for \<open>/stats/export\<close>.
\<close>

lemma handlers_select_window:
  "stats_handler (Some rows) now q
     = (case group_by_agent (filter (\<lambda>r. covers now (mins_of q) (ts r)
                \<and> (agent_of q = [] \<or> agent r = agent_of q)) rows) of
          Inl e \<Rightarrow> res_json 500 (JObj [(''error'', JStr ''stats query failed'')])
        | Inr rs \<Rightarrow>
            res_json 200
              (JObj [(''periodMinutes'', json_of_mins (mins_of q)),
                     (''agent'', json_of_agent (agent_of q)),
                     (''summary'', JArr (map json_of_summary rs))]))"
  "those (map csv_row (export_rows rows now q)) = Some ls \<Longrightarrow>
   stats_export_handler (Some rows) now q
     = Inr \<lparr> status = 200, content_type = ''text/csv; charset=utf-8'',
             body = Raw csv_header # map Raw ls \<rparr>"
  "export_rows rows now q
     = sort_key row_id (filter (\<lambda>r. covers now (mins_of q) (ts r)
                                \<and> (agent_of q = [] \<or> agent r = agent_of q)) rows)"
  by (simp_all add: stats_handler_def stats_export_handler_def stats_query_window
        export_rows_window)

text \<open>
  C6 at \<open>GET /stats?periodMinutes=5\<close> and \<open>GET /stats/export?periodMinutes=5\<close>, one
  minute after a record was stored: the window covers the record and both handlers would
  select it, but the application answers 404 \<open>Not Found\<close> and returns no record.
\<close>

theorem stats_window_not_served:
  "covers 1700000060000 (Num 5) (ts manager_row)
   \<and> stats_rows [manager_row] 1700000060000 five_minutes = [summary_of ''manager'' [manager_row]]
   \<and> export_rows [manager_row] 1700000060000 five_minutes = [manager_row]
   \<and> app cfg (srv\<lparr>stats := Some [manager_row]\<rparr>) 1700000060000
         (get_request ''/stats?periodMinutes=5'' five_minutes) evs
       = Response (res_json 404 (JObj [(''error'', JStr ''Not Found'')]))
   \<and> app cfg (srv\<lparr>stats := Some [manager_row]\<rparr>) 1700000060000
         (get_request ''/stats/export?periodMinutes=5'' five_minutes) evs
       = Response (res_json 404 (JObj [(''error'', JStr ''Not Found'')]))"
proof -
  have c: "covers 1700000060000 (Num 5) (ts manager_row)"
    by (simp add: manager_row_def)
  have q: "mins_of five_minutes = Num 5" "agent_of five_minutes = []"
    by (simp_all add: mins_of_def agent_of_def five_minutes_def)
  have "stats_rows [manager_row] 1700000060000 five_minutes
          = [summary_of ''manager'' [manager_row]]"
    using c by (simp add: stats_rows_window q group_by_agent_one)
  moreover have "export_rows [manager_row] 1700000060000 five_minutes = [manager_row]"
    using c by (simp add: export_rows_window q)
  ultimately show ?thesis
    using c by (simp add: app_stats_not_found path_of_examples)
qed

text \<open>
  C8 at \<open>GET /stats/export\<close> over a store with one record: the export handler would
  write the header row and the row of the record, but the application answers 404 with
  the JSON body \<open>{"error":"Not Found"}\<close>.
\<close>

theorem export_not_served:
  "stats_export_handler (Some [manager_row]) now no_query
     = Inr \<lparr> status = 200, content_type = ''text/csv; charset=utf-8'',
             body = [Raw csv_header,
                     Raw (''1,2023-11-14T22:13:20.000Z,manager,100,25,40,200,12'' @ [CHR 0x0A])] \<rparr>
   \<and> app cfg (srv\<lparr>stats := Some [manager_row]\<rparr>) now (get_request ''/stats/export'' no_query) evs
       = Response \<lparr> status = 404, content_type = ''application/json'',
                    body = [JsonText (JObj [(''error'', JStr ''Not Found'')])] \<rparr>"
proof -
  have "export_rows [manager_row] now no_query = [manager_row]"
    by (simp add: export_rows_def no_query_def mins_of_def agent_of_def selectAllRows_def)
  then show ?thesis
    by (simp add: stats_export_handler_def csv_row_example app_stats_not_found
          path_of_examples res_json_def)
qed

text \<open>The store holds the tags alone: a request adds a record under its classified tag.\<close>

lemma proxyHandler_keeps_tags:
  assumes "\<forall>r \<in> set rows. agent r \<in> agent_tags"
    and "db (proxyHandler cfg (Some rows) now req evs) = Some rows'"
  shows "\<forall>r \<in> set rows'. agent r \<in> agent_tags"
proof -
  have "store_inv (Some rows) (proxyHandler cfg (Some rows) now req evs)"
    by (rule proxyHandler_store_inv)
  then have "rows' = rows \<or> (\<exists>r. rows' = rows @ [r]
                \<and> agent r = st_agent (proxyHandler cfg (Some rows) now req evs))"
    using assms(2) by (auto simp: store_inv_def telemetry_of_def split: if_splits)
  then show ?thesis
    using assms(1) classify_agent_in_tags[of "originalUrl req"]
    by (auto simp: proxyHandler_fields)
qed

lemma toLowerCase_Nil: "(toLowerCase v = []) = (v = [])"
  by (simp add: toLowerCase_def)

text \<open>
  C9, as the code has it. The two reporting handlers lower-case a non-empty \<open>agent\<close>
  value and filter on that text, without mapping it to a tag: for a non-empty value that
  is none of \<open>manager\<close>, \<open>coder\<close>, \<open>tester\<close> in any letter case, over a store that
  holds the tags alone, the summary is empty and the export is the header row alone. An
  empty value is treated as an absent one: no agent filter applies.
\<close>

theorem reporting_filter_not_normalised:
  assumes "query_agent q = Some v" and "v \<noteq> []" and "toLowerCase v \<notin> agent_tags"
    and "\<forall>r \<in> set rows. agent r \<in> agent_tags"
  shows "stats_handler (Some rows) now q
           = res_json 200
               (JObj [(''periodMinutes'', json_of_mins (mins_of q)),
                      (''agent'', JStr (toLowerCase v)),
                      (''summary'', JArr [])])
       \<and> stats_export_handler (Some rows) now q
           = Inr \<lparr> status = 200, content_type = ''text/csv; charset=utf-8'',
                   body = [Raw csv_header] \<rparr>
       \<and> stats_handler d now (q\<lparr>query_agent := Some []\<rparr>)
           = stats_handler d now (q\<lparr>query_agent := None\<rparr>)
       \<and> stats_export_handler d now (q\<lparr>query_agent := Some []\<rparr>)
           = stats_export_handler d now (q\<lparr>query_agent := None\<rparr>)"
proof -
  have e: "agent_of (q\<lparr>query_agent := Some []\<rparr>) = agent_of (q\<lparr>query_agent := None\<rparr>)"
    "mins_of (q\<lparr>query_agent := Some []\<rparr>) = mins_of (q\<lparr>query_agent := None\<rparr>)"
    by (simp_all add: agent_of_def mins_of_def toLowerCase_def)
  have f: "stats_handler d now (q\<lparr>query_agent := Some []\<rparr>)
             = stats_handler d now (q\<lparr>query_agent := None\<rparr>)"
    "stats_export_handler d now (q\<lparr>query_agent := Some []\<rparr>)
             = stats_export_handler d now (q\<lparr>query_agent := None\<rparr>)"
    by (simp_all only: stats_handler_def stats_export_handler_def stats_query_def
          export_rows_def e)
  have a: "agent_of q = toLowerCase v" "agent_of q \<noteq> []"
    using assms(1,2) by (simp_all add: agent_of_def toLowerCase_Nil)
  have "filter (\<lambda>r. covers now (mins_of q) (ts r)
                  \<and> (agent_of q = [] \<or> agent r = agent_of q)) rows = []"
    using assms(3,4) a by (auto simp: filter_empty_conv)
  then have "stats_query rows now q = Inr []" "export_rows rows now q = []"
    by (simp_all add: stats_query_window export_rows_window group_by_agent_Nil)
  then show ?thesis
    using a f by (simp add: stats_handler_def stats_export_handler_def json_of_agent_def)
qed

theorem reporting_filter_not_normalised_witness:
  "query_agent \<lparr> query_periodMinutes = None, query_agent = Some ''Unknown'' \<rparr> = Some ''Unknown''
   \<and> ''Unknown'' \<noteq> [] \<and> toLowerCase ''Unknown'' \<notin> agent_tags
   \<and> agent manager_row \<in> agent_tags
   \<and> stats_handler (Some [manager_row]) 1700000060000
         \<lparr> query_periodMinutes = None, query_agent = Some ''Unknown'' \<rparr>
       = res_json 200 (JObj [(''periodMinutes'', JNull), (''agent'', JStr ''unknown''),
                             (''summary'', JArr [])])
   \<and> stats_export_handler (Some [manager_row]) 1700000060000
         \<lparr> query_periodMinutes = None, query_agent = Some ''Unknown'' \<rparr>
       = Inr \<lparr> status = 200, content_type = ''text/csv; charset=utf-8'',
               body = [Raw csv_header] \<rparr>"
proof -
  have l: "toLowerCase ''Unknown'' = ''unknown''" by code_simp
  have h1: "query_agent \<lparr> query_periodMinutes = None, query_agent = Some ''Unknown'' \<rparr>
              = Some ''Unknown''" by simp
  have h2: "''Unknown'' \<noteq> []" by simp
  have h3: "toLowerCase ''Unknown'' \<notin> agent_tags" by (simp add: l agent_tags_def)
  have h4: "\<forall>r \<in> set [manager_row]. agent r \<in> agent_tags"
    by (simp add: manager_row_def agent_tags_def)
  show ?thesis
    using reporting_filter_not_normalised[OF h1 h2 h3 h4, of 1700000060000] h2 h3 h4
    by (simp add: l mins_of_def)
qed

text \<open>
  C9 as stated fails at the empty value, \<open>?agent=\<close>: it is none of the three tags, yet
  the handlers apply no agent filter at all, and the summary and the export hold the
  record of \<open>manager\<close>.
\<close>

theorem reporting_filter_empty_value_counterexample:
  "toLowerCase [] \<notin> agent_tags
   \<and> stats_handler (Some [manager_row]) 1700000060000 empty_agent_query
       = res_json 200 (JObj [(''periodMinutes'', JNull), (''agent'', JNull),
           (''summary'', JArr [json_of_summary (summary_of ''manager'' [manager_row])])])
   \<and> stats_export_handler (Some [manager_row]) 1700000060000 empty_agent_query
       = Inr \<lparr> status = 200, content_type = ''text/csv; charset=utf-8'',
               body = [Raw csv_header,
                  Raw (''1,2023-11-14T22:13:20.000Z,manager,100,25,40,200,12'' @ [CHR 0x0A])] \<rparr>"
proof -
  have q: "mins_of empty_agent_query = Num 0" "agent_of empty_agent_query = []"
    by (simp_all add: mins_of_def agent_of_def empty_agent_query_def toLowerCase_def)
  have "stats_query [manager_row] 1700000060000 empty_agent_query
          = Inr [summary_of ''manager'' [manager_row]]"
    by (simp add: stats_query_window q group_by_agent_one)
  moreover have "export_rows [manager_row] 1700000060000 empty_agent_query = [manager_row]"
    by (simp add: export_rows_window q)
  ultimately show ?thesis
    by (simp add: stats_handler_def stats_export_handler_def q json_of_agent_def
          csv_row_example toLowerCase_def agent_tags_def)
qed

section \<open>The export can be read back\<close>

lemma digit_char_cases:
  assumes "d < 10"
  shows "digit_val (digit_char d) = Some d" and "digit_char d \<noteq> CHR '',''"
    and "digit_char d \<noteq> CHR ''-''" and "digit_char d \<noteq> CHR 0x0A"
proof -
  have "d = 0 \<or> d = 1 \<or> d = 2 \<or> d = 3 \<or> d = 4 \<or> d = 5 \<or> d = 6 \<or> d = 7 \<or> d = 8 \<or> d = 9"
    using assms by arith
  then show "digit_val (digit_char d) = Some d" and "digit_char d \<noteq> CHR '',''"
    and "digit_char d \<noteq> CHR ''-''" and "digit_char d \<noteq> CHR 0x0A"
    by (auto simp: digit_char_def digit_val_def)
qed

lemma parse_digits_snoc:
  "d < 10 \<Longrightarrow>
   parse_digits (s @ [digit_char d]) acc = map_option (\<lambda>v. 10 * v + d) (parse_digits s acc)"
  by (induction s arbitrary: acc) (simp_all add: digit_char_cases split: option.splits)

lemma show_nat_not_Nil: "show_nat n \<noteq> []"
  by (subst show_nat.simps) simp

lemma parse_digits_show_nat: "parse_digits (show_nat n) 0 = Some n"
proof (induction n rule: show_nat.induct)
  case (1 n)
  show ?case
  proof (cases "n < 10")
    case True
    then show ?thesis by (subst show_nat.simps) (simp add: digit_char_cases)
  next
    case False
    then have "parse_digits (show_nat (n div 10)) 0 = Some (n div 10)" using 1 by simp
    then show ?thesis
      using False by (subst show_nat.simps) (simp add: parse_digits_snoc)
  qed
qed

lemma parse_digits_zeros: "parse_digits (replicate k CHR ''0'' @ s) 0 = parse_digits s 0"
  by (induction k) (simp_all add: digit_val_def)

lemma parse_nat_pad: "parse_nat (pad k n) = Some n"
  by (simp add: parse_nat_def pad_def parse_digits_zeros parse_digits_show_nat show_nat_not_Nil)

lemma parse_nat_show_nat: "parse_nat (show_nat n) = Some n"
  by (simp add: parse_nat_def parse_digits_show_nat show_nat_not_Nil)

lemma show_nat_chars: "c \<in> set (show_nat n) \<Longrightarrow> c \<noteq> CHR '','' \<and> c \<noteq> CHR ''-'' \<and> c \<noteq> CHR 0x0A"
proof (induction n rule: show_nat.induct)
  case (1 n)
  show ?case
  proof (cases "n < 10")
    case True
    then show ?thesis using "1.prems" digit_char_cases[of n]
      by (subst (asm) show_nat.simps) auto
  next
    case False
    then show ?thesis using 1 digit_char_cases[of "n mod 10"]
      by (subst (asm) (2) show_nat.simps) auto
  qed
qed

lemma show_nat_hd: "hd (show_nat n) \<noteq> CHR ''-''"
  using show_nat_chars[of "hd (show_nat n)" n] show_nat_not_Nil[of n] by simp

lemma parse_int_show_int: "parse_int (show_int i) = Some i"
proof (cases "i < 0")
  case True
  then show ?thesis by (simp add: parse_int_def show_int_def parse_nat_show_nat)
next
  case False
  obtain c cs where s: "show_nat (nat i) = c # cs"
    using show_nat_not_Nil[of "nat i"] by (cases "show_nat (nat i)") auto
  then have "c \<noteq> CHR ''-''" using show_nat_hd[of "nat i"] by simp
  then show ?thesis
    using False s parse_nat_show_nat[of "nat i"] by (simp add: parse_int_def show_int_def)
qed

lemma show_int_chars: "c \<in> set (show_int i) \<Longrightarrow> c \<noteq> CHR '','' \<and> c \<noteq> CHR 0x0A"
  using show_nat_chars by (auto simp: show_int_def split: if_splits)

lemma length_show_nat: "n < 10 ^ k \<Longrightarrow> 0 < k \<Longrightarrow> length (show_nat n) \<le> k"
proof (induction n arbitrary: k rule: show_nat.induct)
  case (1 n)
  show ?case
  proof (cases "n < 10")
    case True
    then show ?thesis using "1.prems" by (subst show_nat.simps) simp
  next
    case False
    obtain j where k: "k = Suc j" using "1.prems"(2) by (cases k) auto
    have "n div 10 < 10 ^ j" using "1.prems"(1) k by (simp add: less_mult_imp_div_less)
    moreover have "0 < j" using False "1.prems"(1) k by (cases j) auto
    ultimately have "length (show_nat (n div 10)) \<le> j" using 1 False by simp
    then show ?thesis using False k by (subst show_nat.simps) simp
  qed
qed

lemma length_pad: "n < 10 ^ k \<Longrightarrow> 0 < k \<Longrightarrow> length (pad k n) = k"
  using length_show_nat[of n k] by (simp add: pad_def)

lemma pad_chars: "c \<in> set (pad k n) \<Longrightarrow> c \<noteq> CHR '','' \<and> c \<noteq> CHR 0x0A"
  using show_nat_chars by (auto simp: pad_def)

lemma day_in_year:
  "0 \<le> d - DayFromYear (YearFromDay d)"
  "d - DayFromYear (YearFromDay d) < (if InLeapYear (YearFromDay d) then 366 else 365)"
  using YearFromDay_bounds[of d] DayFromYear_step[of "YearFromDay d"]
  by (simp_all split: if_splits)

lemma month_of_day:
  assumes "0 \<le> diy" and "diy < (if leap then 366 else 365)"
  shows "MonthFromDay diy leap \<le> 11"
    and "MonthStart leap (MonthFromDay diy leap) \<le> diy"
    and "diy - MonthStart leap (MonthFromDay diy leap) < 31"
  using assms by (auto simp: MonthFromDay_def MonthStart_def Let_def)

lemma year_in_range:
  assumes "DayFromYear 0 \<le> d" and "d < DayFromYear 10000"
  shows "0 \<le> YearFromDay d" and "YearFromDay d \<le> 9999"
proof -
  show "0 \<le> YearFromDay d"
  proof (rule ccontr)
    assume "\<not> 0 \<le> YearFromDay d"
    then have "DayFromYear (YearFromDay d + 1) \<le> DayFromYear 0"
      by (intro DayFromYear_mono) simp
    then show False using YearFromDay_bounds(2)[of d] assms(1) by simp
  qed
  show "YearFromDay d \<le> 9999"
  proof (rule ccontr)
    assume "\<not> YearFromDay d \<le> 9999"
    then have "DayFromYear 10000 \<le> DayFromYear (YearFromDay d)"
      by (intro DayFromYear_mono) simp
    then show False using YearFromDay_bounds(1)[of d] assms(2) by simp
  qed
qed

lemma DayFromYear_ends: "DayFromYear 0 = - 719528" "DayFromYear 10000 = 2932897"
  by (simp_all add: DayFromYear_def)

lemma Date_parse_fields:
  assumes "length Y = 4" "length Mo = 2" "length D = 2" "length H = 2" "length Mi = 2"
    "length S = 2" "length Ms = 3"
  shows "Date_parse (Y @ ''-'' @ Mo @ ''-'' @ D @ ''T'' @ H @ '':'' @ Mi @ '':'' @ S @ ''.''
                     @ Ms @ ''Z'')
         = (case (parse_nat Y, parse_nat Mo, parse_nat D, parse_nat H, parse_nat Mi,
                  parse_nat S, parse_nat Ms) of
              (Some y, Some mo, Some d, Some h, Some mi, Some sec, Some ms) \<Rightarrow>
                if 1 \<le> mo \<and> mo \<le> 12 \<and> 1 \<le> d then Some (MakeTime y mo d h mi sec ms)
                else None
            | _ \<Rightarrow> None)"
  using assms by (simp add: Date_parse_def nth_append)


lemma time_split:
  fixes n :: nat
  shows "n div 3600000 * 3600000 + n div 60000 mod 60 * 60000 + n div 1000 mod 60 * 1000
         + n mod 1000 = n"
proof -
  define a b c where "a = n div 1000" and "b = a div 60" and "c = b div 60"
  have b: "n div 60000 = b"
    using div_mult2_eq[of n 1000 60] by (simp add: a_def b_def)
  have c: "n div 3600000 = c"
    using div_mult2_eq[of n 60000 60] b by (simp add: c_def)
  have 1: "n = 1000 * a + n mod 1000" by (simp add: a_def)
  have 2: "a = 60 * b + a mod 60" by (simp add: b_def)
  have 3: "b = 60 * c + b mod 60" by (simp add: c_def)
  have "c * 3600000 + b mod 60 * 60000 + a mod 60 * 1000 + n mod 1000 = n"
    using 1 2 3 by linarith
  then show ?thesis by (simp only: b c a_def[symmetric])
qed

lemma time_fields:
  fixes n :: nat
  assumes "n < 86400000"
  shows "n div 3600000 < 10 ^ 2" "n div 60000 mod 60 < 10 ^ 2" "n div 1000 mod 60 < 10 ^ 2"
    "n mod 1000 < 10 ^ 3"
proof -
  have "n div 3600000 < 24" using assms by (simp add: less_mult_imp_div_less)
  then show "n div 3600000 < 10 ^ 2" by simp
  have "n div 60000 mod 60 < 60" by simp
  then show "n div 60000 mod 60 < 10 ^ 2" by simp
  have "n div 1000 mod 60 < 60" by simp
  then show "n div 1000 mod 60 < 10 ^ 2" by simp
  show "n mod 1000 < 10 ^ 3" by simp
qed

lemma Date_parse_toISOString:
  assumes lo: "- 62167219200000 \<le> t" and hi: "t < 253402300800000"
  shows "\<exists>s. toISOString t = Some s \<and> Date_parse s = Some t
             \<and> CHR '','' \<notin> set s \<and> CHR 0x0A \<notin> set s"
proof -
  define day where "day = t div 86400000"
  define ms where "ms = nat (t mod 86400000)"
  define y where "y = YearFromDay day"
  define diy where "diy = day - DayFromYear y"
  define m where "m = MonthFromDay diy (InLeapYear y)"
  define dt where "dt = nat (diy - MonthStart (InLeapYear y) m + 1)"
  define Y Mo D H Mi S Ms where "Y = pad 4 (nat y)" and "Mo = pad 2 (m + 1)"
    and "D = pad 2 dt" and "H = pad 2 (ms div 3600000)" and "Mi = pad 2 (ms div 60000 mod 60)"
    and "S = pad 2 (ms div 1000 mod 60)" and "Ms = pad 3 (ms mod 1000)"
  have t: "t = day * 86400000 + int ms" by (simp add: day_def ms_def)
  have msb: "ms < 86400000" by (simp add: ms_def nat_less_iff)
  have "(- 62167219200000) div 86400000 \<le> day"
    unfolding day_def using lo by (intro zdiv_mono1) simp_all
  then have d0: "DayFromYear 0 \<le> day" by (simp add: DayFromYear_ends)
  have "t \<le> 253402300799999" using hi by simp
  then have "day \<le> 253402300799999 div 86400000"
    unfolding day_def by (intro zdiv_mono1) simp_all
  then have d1: "day < DayFromYear 10000" by (simp add: DayFromYear_ends)
  have yr: "0 \<le> y" "y \<le> 9999" using year_in_range[OF d0 d1] by (simp_all add: y_def)
  have diy: "0 \<le> diy" "diy < (if InLeapYear y then 366 else 365)"
    using day_in_year[of day] by (simp_all add: diy_def y_def)
  have mo: "m \<le> 11" "MonthStart (InLeapYear y) m \<le> diy"
    "diy - MonthStart (InLeapYear y) m < 31"
    using month_of_day[OF diy] by (simp_all add: m_def)
  have dtv: "int dt = diy - MonthStart (InLeapYear y) m + 1" "1 \<le> dt" "dt < 10 ^ 2"
    using mo by (simp_all add: dt_def)
  have len: "length Y = 4" "length Mo = 2" "length D = 2" "length H = 2" "length Mi = 2"
    "length S = 2" "length Ms = 3"
    using yr mo(1) dtv(3) time_fields[OF msb]
    by (simp_all add: Y_def Mo_def D_def H_def Mi_def S_def Ms_def length_pad)
  let ?s = "Y @ ''-'' @ Mo @ ''-'' @ D @ ''T'' @ H @ '':'' @ Mi @ '':'' @ S @ ''.'' @ Ms @ ''Z''"
  have r: "\<not> \<bar>t\<bar> > 8640000000000000" using lo hi by simp
  have ys: "year_string y = Y" using yr by (simp add: year_string_def Y_def)
  have iso: "toISOString t = Some ?s"
    unfolding toISOString_def Let_def
    by (simp only: r if_False day_def[symmetric] ms_def[symmetric] y_def[symmetric]
          diy_def[symmetric] m_def[symmetric] dt_def[symmetric] ys
          Mo_def[symmetric] D_def[symmetric] H_def[symmetric] Mi_def[symmetric]
          S_def[symmetric] Ms_def[symmetric])
  have "MakeTime (nat y) (m + 1) dt (ms div 3600000) (ms div 60000 mod 60)
          (ms div 1000 mod 60) (ms mod 1000)
        = (DayFromYear y + MonthStart (InLeapYear y) m + int dt - 1) * 86400000
          + int (ms div 3600000 * 3600000 + ms div 60000 mod 60 * 60000
                 + ms div 1000 mod 60 * 1000 + ms mod 1000)"
    using yr by (simp add: MakeTime_def)
  also have "\<dots> = day * 86400000 + int ms"
    by (simp only: time_split dtv(1)) (simp add: diy_def)
  finally have mk: "MakeTime (nat y) (m + 1) dt (ms div 3600000) (ms div 60000 mod 60)
          (ms div 1000 mod 60) (ms mod 1000) = t"
    using t by simp
  have p: "parse_nat Y = Some (nat y)" "parse_nat Mo = Some (m + 1)" "parse_nat D = Some dt"
    "parse_nat H = Some (ms div 3600000)" "parse_nat Mi = Some (ms div 60000 mod 60)"
    "parse_nat S = Some (ms div 1000 mod 60)" "parse_nat Ms = Some (ms mod 1000)"
    by (simp_all only: Y_def Mo_def D_def H_def Mi_def S_def Ms_def parse_nat_pad)
  have "Date_parse ?s = Some t"
    using mo(1) dtv(2) mk by (simp only: Date_parse_fields[OF len] p) simp
  moreover have "CHR '','' \<notin> set ?s \<and> CHR 0x0A \<notin> set ?s"
    using pad_chars by (auto simp: Y_def Mo_def D_def H_def Mi_def S_def Ms_def)
  ultimately show ?thesis using iso by blast
qed

lemma parse_csv_row_csv_row:
  assumes "exportable r"
  shows "\<exists>line. csv_row r = Some line \<and> parse_csv_row line = Some r"
proof -
  obtain iso where iso: "toISOString (ts r) = Some iso" "Date_parse iso = Some (ts r)"
    "CHR '','' \<notin> set iso"
    using Date_parse_toISOString[of "ts r"] assms by (auto simp: exportable_def)
  have ag: "CHR '','' \<notin> set (agent r)" using assms by (simp add: exportable_def)
  have n: "\<And>i. CHR '','' \<notin> set (show_int i)" using show_int_chars by blast
  let ?fields = "show_int (row_id r) @ '','' @ iso @ '','' @ agent r @ '',''
                @ show_int (in_bytes r) @ '','' @ show_int (est_tokens r) @ '',''
                @ show_int (out_bytes r) @ '','' @ show_int (upstream_status r) @ '',''
                @ show_int (duration_ms r)"
  have line: "csv_row r = Some (?fields @ [CHR 0x0A])"
    by (simp add: csv_row_def iso(1))
  have "split_on CHR '','' ?fields
          = [show_int (row_id r), iso, agent r, show_int (in_bytes r), show_int (est_tokens r),
             show_int (out_bytes r), show_int (upstream_status r), show_int (duration_ms r)]"
    using n iso(3) ag by (simp add: split_on_field split_on_last)
  then have "parse_csv_row (?fields @ [CHR 0x0A]) = Some r"
    unfolding parse_csv_row_def
    by (simp only: butlast_snoc last_snoc) (simp add: parse_int_show_int iso(2))
  then show ?thesis using line by blast
qed

lemma those_csv_rows:
  assumes "\<forall>r \<in> set rs. exportable r"
  shows "\<exists>ls. those (map csv_row rs) = Some ls \<and> map parse_csv_row ls = map Some rs"
  using assms
proof (induction rs)
  case Nil
  then show ?case by simp
next
  case (Cons r rs)
  obtain line where l: "csv_row r = Some line" "parse_csv_row line = Some r"
    using parse_csv_row_csv_row[of r] Cons.prems by auto
  obtain ls where ls: "those (map csv_row rs) = Some ls" "map parse_csv_row ls = map Some rs"
    using Cons by auto
  show ?case using l ls by simp
qed

text \<open>
  The export handler, were it called, writes the header row, then one row for each
  selected record in ascending id, and each row reads back as its record.
\<close>

lemma export_round_trip:
  assumes "\<forall>r \<in> set rows. exportable r"
  shows "\<exists>ls. stats_export_handler (Some rows) now q
                = Inr \<lparr> status = 200, content_type = ''text/csv; charset=utf-8'',
                        body = Raw csv_header # map Raw ls \<rparr>
              \<and> map parse_csv_row ls = map Some (export_rows rows now q)
              \<and> sorted (map row_id (export_rows rows now q))"
proof -
  have "\<forall>r \<in> set (export_rows rows now q). exportable r"
    using assms by (simp add: export_rows_window)
  then obtain ls where "those (map csv_row (export_rows rows now q)) = Some ls"
    "map parse_csv_row ls = map Some (export_rows rows now q)"
    using those_csv_rows by blast
  moreover have "sorted (map row_id (export_rows rows now q))"
    by (simp add: export_rows_window)
  ultimately show ?thesis by (auto simp: stats_export_handler_def)
qed

end
